theory Spec2Isabelle
  imports Complex_Main "HOL-Library.AList" "HOL-Library.Sublist"
begin

section \<open>JavaScript values and strings\<close>

text \<open>
  The plugin is TypeScript. A string is modelled as a \<open>char list\<close>: the code units
  U+0000 .. U+00FF of a JavaScript string, one \<open>char\<close> each (text beyond Latin-1 is
  outside the model). A number is an \<open>int\<close> where the code counts line changes and a
  \<open>rat\<close> where it holds seconds (\<open>Date.now() / 1000\<close>); the rounding of IEEE doubles is
  not modelled. The \<open>any\<close>-typed arguments of a tool call are values of \<open>jsval\<close>.
\<close>

datatype jsval =
    Undefined
  | Null
  | JBool bool
  | JNum int
  | JStr string
  | JObj "(string \<times> jsval) list"

datatype exn =
    TypeError
  | Rejected string

text \<open>Truthiness, as \<open>if (x)\<close>, \<open>!x\<close> and \<open>x || y\<close> read it.\<close>

fun truthy :: "jsval \<Rightarrow> bool" where
  "truthy Undefined = False"
| "truthy Null = False"
| "truthy (JBool b) = b"
| "truthy (JNum n) = (n \<noteq> 0)"
| "truthy (JStr s) = (s \<noteq> [])"
| "truthy (JObj kvs) = True"

text \<open>An optional string field (\<open>string | undefined\<close>) is falsy when unset or empty.\<close>

fun truthy_str :: "string option \<Rightarrow> bool" where
  "truthy_str None = False"
| "truthy_str (Some s) = (s \<noteq> [])"

text \<open>
  Member access \<open>v.k\<close>: a TypeError on \<open>undefined\<close> and \<open>null\<close>, the field (or
  \<open>undefined\<close>) on an object, \<open>undefined\<close> on the other primitives for the field names
  read here (\<open>filePath\<close>, \<open>file_path\<close>, \<open>path\<close>).
\<close>

fun getProp :: "jsval \<Rightarrow> string \<Rightarrow> exn + jsval" where
  "getProp Undefined k = Inl TypeError"
| "getProp Null k = Inl TypeError"
| "getProp (JObj kvs) k = Inr (case map_of kvs k of None \<Rightarrow> Undefined | Some v \<Rightarrow> v)"
| "getProp v k = Inr Undefined"

fun isString :: "jsval \<Rightarrow> bool" where
  "isString (JStr s) = True"
| "isString v = False"

subsection \<open>String primitives\<close>

text \<open>
  \<open>String.prototype.trim\<close> removes white space and line terminators at both ends; in
  the range U+0000 .. U+00FF these are TAB, LF, VT, FF, CR, SPACE and NBSP.
\<close>

definition isWhiteSpace :: "char \<Rightarrow> bool" where
  "isWhiteSpace c = (of_char c \<in> {9, 10, 11, 12, 13, 32, 160 :: nat})"

definition trim :: "string \<Rightarrow> string" where
  "trim s = rev (dropWhile isWhiteSpace (rev (dropWhile isWhiteSpace s)))"

text \<open>
  \<open>s.split(sep)\<close> for a one-character separator: every occurrence separates, and the
  result always has at least one element (\<open>''''.split(sep)\<close> is \<open>['''']\<close>).
\<close>

fun split :: "char \<Rightarrow> string \<Rightarrow> string list" where
  "split sep [] = [[]]"
| "split sep (c # cs) =
     (if c = sep then [] # split sep cs
      else (case split sep cs of [] \<Rightarrow> [[c]] | p # ps \<Rightarrow> (c # p) # ps))"

text \<open>
  \<open>toLowerCase\<close> in the same range: A-Z and the Latin-1 capitals U+00C0 .. U+00DE
  (without the multiplication sign U+00D7) move up by 32; everything else stays.
\<close>

definition isUpperCase :: "char \<Rightarrow> bool" where
  "isUpperCase c = (let n = (of_char c :: nat) in
     (65 \<le> n \<and> n \<le> 90) \<or> (192 \<le> n \<and> n \<le> 222 \<and> n \<noteq> 215))"

definition toLowerCase :: "string \<Rightarrow> string" where
  "toLowerCase s =
     map (\<lambda>c. if isUpperCase c then char_of (of_char c + (32 :: nat)) else c) s"

text \<open>\<open>s.substring(a, b)\<close>: the arguments are clamped and swapped when \<open>a > b\<close>.\<close>

definition substring :: "nat \<Rightarrow> nat \<Rightarrow> string \<Rightarrow> string" where
  "substring a b s = take (max a b - min a b) (drop (min a b) s)"

text \<open>The private helpers of \<open>Options\<close>, written with \<open>slice\<close> in the source.\<close>

definition startsWith :: "string \<Rightarrow> string \<Rightarrow> bool" where
  "startsWith outer inner = (take (length inner) outer = inner)"

definition endsWith :: "string \<Rightarrow> string \<Rightarrow> bool" where
  "endsWith outer inner =
     (inner = [] \<or> drop (length outer - length inner) outer = inner)"

definition removeNulls :: "string \<Rightarrow> string" where
  "removeNulls s = filter (\<lambda>c. c \<noteq> CHR 0x00) s"

section \<open>Options: the configuration reader\<close>

record Options =
  configFile :: string
  internalConfigFile :: string
  logFile :: string
  resourcesLocation_o :: string
  workingDirectory_o :: string
  configCache :: "string \<rightharpoonup> string"

definition getConfigFile :: "Options \<Rightarrow> bool \<Rightarrow> string" where
  "getConfigFile opt internal = (if internal then internalConfigFile opt else configFile opt)"

text \<open>
  The \<open>for\<close> loop of \<open>Options.getSetting\<close> over the lines, with \<open>currentSection\<close> as
  the loop variable. \<open>parts[0]\<close> is the head of the list: \<open>split\<close> never returns an empty
  list. \<open>parts[1]\<close> is read only behind \<open>parts.length > 1\<close>.
\<close>

fun getSetting_lines :: "string \<Rightarrow> string \<Rightarrow> string \<Rightarrow> string list \<Rightarrow> string option" where
  "getSetting_lines section key currentSection [] = None"
| "getSetting_lines section key currentSection (line # lines) =
     (if startsWith (trim line) ''['' \<and> endsWith (trim line) '']'' then
        getSetting_lines section key
          (toLowerCase (substring 1 (length (trim line) - 1) (trim line))) lines
      else if currentSection = section then
        (let parts = split (CHR ''='') line;
             currentKey = trim (hd parts)
         in if currentKey = key \<and> length parts > 1
            then Some (removeNulls (trim (parts ! 1)))
            else getSetting_lines section key currentSection lines)
      else getSetting_lines section key currentSection lines)"

definition getSetting :: "Options \<Rightarrow> string \<Rightarrow> string \<Rightarrow> bool option \<Rightarrow> string option" where
  "getSetting opt section key internal =
     (case configCache opt (getConfigFile opt (case internal of None \<Rightarrow> False | Some b \<Rightarrow> b)) of
        None \<Rightarrow> None
      | Some content \<Rightarrow>
          if content = [] then None
          else if trim content \<noteq> [] then
            getSetting_lines section key [] (split (CHR 0x0A) content)
          else None)"

text \<open>
  The copy of \<open>getSetting\<close> in the bundled plugin (\<open>.opencode/plugin/wakatime.ts\<close>): one
  config file, the trimmed line is split, and nulls are not removed.
\<close>

fun getSetting_lines_bundled :: "string \<Rightarrow> string \<Rightarrow> string \<Rightarrow> string list \<Rightarrow> string option" where
  "getSetting_lines_bundled section key currentSection [] = None"
| "getSetting_lines_bundled section key currentSection (line # lines) =
     (let trimmed = trim line in
      if startsWith trimmed ''['' \<and> endsWith trimmed '']'' then
        getSetting_lines_bundled section key
          (toLowerCase (substring 1 (length trimmed - 1) trimmed)) lines
      else if currentSection = section then
        (let parts = split (CHR ''='') trimmed
         in if trim (hd parts) = key \<and> length parts > 1
            then Some (trim (parts ! 1))
            else getSetting_lines_bundled section key currentSection lines)
      else getSetting_lines_bundled section key currentSection lines)"

definition getSetting_bundled :: "Options \<Rightarrow> string \<Rightarrow> string \<Rightarrow> string option" where
  "getSetting_bundled opt section key =
     (case configCache opt (configFile opt) of
        None \<Rightarrow> None
      | Some content \<Rightarrow>
          if content = [] then None
          else getSetting_lines_bundled section key [] (split (CHR 0x0A) content))"

text \<open>
  The reader in the spec's words. A header is a line of the form \<open>[name]\<close>, white space
  around it aside; the section in force under some lines is the lowercased name of the
  last header among them, and the empty name when there is none; a line carries the key
  \<open>k\<close> when it contains \<open>=\<close> and what stands before its first \<open>=\<close> is \<open>k\<close>, white space
  around it aside; its second field is what stands between its first \<open>=\<close> and the next
  one (or the end of the line).
\<close>

definition is_header :: "string \<Rightarrow> bool" where
  "is_header l =
     (case trim l of [] \<Rightarrow> False | c # cs \<Rightarrow> c = CHR ''['' \<and> cs \<noteq> [] \<and> last cs = CHR '']'')"

definition header_name :: "string \<Rightarrow> string" where
  "header_name l = toLowerCase (butlast (tl (trim l)))"

definition section_from :: "string \<Rightarrow> string list \<Rightarrow> string" where
  "section_from initial earlier =
     (case filter is_header (rev earlier) of [] \<Rightarrow> initial | h # hs \<Rightarrow> header_name h)"

definition section_in_force :: "string list \<Rightarrow> string" where
  "section_in_force earlier = section_from [] earlier"

definition carries_key :: "string \<Rightarrow> string \<Rightarrow> bool" where
  "carries_key k l = (CHR ''='' \<in> set l \<and> trim (takeWhile (\<lambda>c. c \<noteq> CHR ''='') l) = k)"

definition second_field :: "string \<Rightarrow> string" where
  "second_field l =
     takeWhile (\<lambda>c. c \<noteq> CHR ''='') (tl (dropWhile (\<lambda>c. c \<noteq> CHR ''='') l))"

text \<open>The line \<open>l\<close>, standing under the lines \<open>earlier\<close>, is a line for \<open>k\<close> in the section.\<close>

definition key_line_in_section :: "string \<Rightarrow> string \<Rightarrow> string list \<Rightarrow> string \<Rightarrow> bool" where
  "key_line_in_section section k earlier l =
     (\<not> is_header l \<and> section_in_force earlier = section \<and> carries_key k l)"

section \<open>The adapter, the runtime and the trace of effects\<close>

text \<open>
  The code reaches the outside through the \<open>FileSystemAdapter\<close> (existence check, file
  read, process execution, home directory) and through Node and JavaScript built-ins
  (\<open>Date.now\<close>, \<open>path.join\<close>, \<open>path.isAbsolute\<close>, \<open>String\<close> of a number). Both are
  parameters of the model. The outside is a state of an arbitrary type \<open>'w\<close> that every
  call may read and change, so files may appear and the clock may advance between any
  two calls. An existence check answers with a boolean, as the plugin's own adapter does
  (it turns every failure into \<open>false\<close>); a read and a process execution may reject. The
  existence check takes a \<open>jsval\<close>, because \<open>trackToolUsage\<close> of \<open>src/tracker\<close> passes an
  unchecked \<open>any\<close> down to it.

  Every adapter call and every call of a logger method are appended to a trace, in the
  order in which they happen. One event handler runs at a time (the host does not
  re-enter the tracker), so an \<open>await\<close> is sequential composition.
\<close>

record 'w FileSystemAdapter =
  exists :: "jsval \<Rightarrow> 'w \<Rightarrow> bool \<times> 'w"
  readFile :: "string \<Rightarrow> 'w \<Rightarrow> (exn + string) \<times> 'w"
  exec :: "string \<Rightarrow> string list \<Rightarrow> (string \<times> string) list option \<Rightarrow> 'w
             \<Rightarrow> (exn + string \<times> string) \<times> 'w"
  homedir :: string

record 'w Runtime =
  Date_now :: "'w \<Rightarrow> int \<times> 'w"
  path_join :: "string \<Rightarrow> string \<Rightarrow> string"
  path_isAbsolute :: "string \<Rightarrow> bool"
  String_of :: "rat \<Rightarrow> string"

datatype LogLevel = DEBUG | INFO | WARN | ERROR

datatype logmsg =
    FoundLocal string
  | FoundBrew string
  | FoundOldBrew string
  | FoundAt string
  | CheckingCli
  | CliFound
  | CliNotFound
  | Sending string int
  | NoApiKey
  | NoCli
  | CliStdout string
  | CliStderr string
  | HeartbeatError exn
  | TrackError exn

datatype event =
    Exists jsval
  | ReadFile string
  | Exec string "string list" "(string \<times> string) list option"
  | SetLevel LogLevel
  | Log LogLevel logmsg

type_synonym 'w io = "'w \<times> event list"

definition adapter_exists :: "'w FileSystemAdapter \<Rightarrow> jsval \<Rightarrow> 'w io \<Rightarrow> bool \<times> 'w io" where
  "adapter_exists ad p s =
     (case exists ad p (fst s) of (b, w) \<Rightarrow> (b, (w, snd s @ [Exists p])))"

definition adapter_readFile :: "'w FileSystemAdapter \<Rightarrow> string \<Rightarrow> 'w io \<Rightarrow> (exn + string) \<times> 'w io" where
  "adapter_readFile ad p s =
     (case readFile ad p (fst s) of (r, w) \<Rightarrow> (r, (w, snd s @ [ReadFile p])))"

definition adapter_exec :: "'w FileSystemAdapter \<Rightarrow> string \<Rightarrow> string list
    \<Rightarrow> (string \<times> string) list option \<Rightarrow> 'w io \<Rightarrow> (exn + string \<times> string) \<times> 'w io" where
  "adapter_exec ad cmd args env s =
     (case exec ad cmd args env (fst s) of (r, w) \<Rightarrow> (r, (w, snd s @ [Exec cmd args env])))"

text \<open>\<open>Date.now() / 1000\<close>: the clock in seconds.\<close>

definition now :: "'w Runtime \<Rightarrow> 'w io \<Rightarrow> rat \<times> 'w io" where
  "now rt s = (case Date_now rt (fst s) of (ms, w) \<Rightarrow> (of_int ms / 1000, (w, snd s)))"

definition logger :: "LogLevel \<Rightarrow> logmsg \<Rightarrow> 'w io \<Rightarrow> 'w io" where
  "logger l m s = (fst s, snd s @ [Log l m])"

definition setLevel :: "LogLevel \<Rightarrow> 'w io \<Rightarrow> 'w io" where
  "setLevel l s = (fst s, snd s @ [SetLevel l])"

section \<open>Dependencies: the CLI locator\<close>

record Dependencies =
  resourcesLocation :: string
  cliLocation :: "string option"

text \<open>
  \<open>Dependencies.getCliLocation\<close> of \<open>src/dependencies.ts\<close>. The guard
  \<open>if (this.cliLocation)\<close> tests truthiness, so it does not fire on the empty string.
\<close>

definition getCliLocation :: "'w Runtime \<Rightarrow> 'w FileSystemAdapter \<Rightarrow> Dependencies \<Rightarrow> 'w io
    \<Rightarrow> string \<times> Dependencies \<times> 'w io" where
  "getCliLocation rt ad d s =
     (if truthy_str (cliLocation d) then (case cliLocation d of Some loc \<Rightarrow> loc | None \<Rightarrow> [], d, s)
      else
        let simpleBinary = ''wakatime-cli'';
            localCliPath = path_join rt (resourcesLocation d) simpleBinary
        in case adapter_exists ad (JStr localCliPath) s of (found1, s1) \<Rightarrow>
          if found1 then
            (localCliPath, d\<lparr>cliLocation := Some localCliPath\<rparr>,
             logger DEBUG (FoundLocal localCliPath) s1)
          else
            let brewCliPath = ''/opt/homebrew/bin/'' @ simpleBinary
            in case adapter_exists ad (JStr brewCliPath) s1 of (found2, s2) \<Rightarrow>
              if found2 then
                (brewCliPath, d\<lparr>cliLocation := Some brewCliPath\<rparr>,
                 logger DEBUG (FoundBrew brewCliPath) s2)
              else
                let oldBrewCliPath = ''/usr/local/bin/'' @ simpleBinary
                in case adapter_exists ad (JStr oldBrewCliPath) s2 of (found3, s3) \<Rightarrow>
                  if found3 then
                    (oldBrewCliPath, d\<lparr>cliLocation := Some oldBrewCliPath\<rparr>,
                     logger DEBUG (FoundOldBrew oldBrewCliPath) s3)
                  else ([], d\<lparr>cliLocation := Some []\<rparr>, s3))"

definition isCliInstalled :: "'w Runtime \<Rightarrow> 'w FileSystemAdapter \<Rightarrow> Dependencies \<Rightarrow> 'w io
    \<Rightarrow> bool \<times> Dependencies \<times> 'w io" where
  "isCliInstalled rt ad d s =
     (case getCliLocation rt ad d s of (cliPath, d1, s1) \<Rightarrow>
        if cliPath = [] then (False, d1, s1)
        else (case adapter_exists ad (JStr cliPath) s1 of (b, s2) \<Rightarrow> (b, d1, s2)))"

definition checkAndInstallCli :: "'w Runtime \<Rightarrow> 'w FileSystemAdapter \<Rightarrow> Dependencies \<Rightarrow> 'w io
    \<Rightarrow> Dependencies \<times> 'w io" where
  "checkAndInstallCli rt ad d s =
     (case isCliInstalled rt ad d (logger DEBUG CheckingCli s) of (installed, d1, s1) \<Rightarrow>
        if installed then (d1, logger DEBUG CliFound s1)
        else (d1, logger WARN CliNotFound s1))"

text \<open>
  The bundled plugin's \<open>getCliLocation\<close>: the three candidates in a loop, and a miss
  returns the empty string without assigning the field.
\<close>

fun getCliLocation_loop :: "'w FileSystemAdapter \<Rightarrow> string list \<Rightarrow> Dependencies \<Rightarrow> 'w io
    \<Rightarrow> string \<times> Dependencies \<times> 'w io" where
  "getCliLocation_loop ad [] d s = ([], d, s)"
| "getCliLocation_loop ad (p # ps) d s =
     (case adapter_exists ad (JStr p) s of (found, s1) \<Rightarrow>
        if found then (p, d\<lparr>cliLocation := Some p\<rparr>, logger DEBUG (FoundAt p) s1)
        else getCliLocation_loop ad ps d s1)"

definition getCliLocation_bundled :: "'w Runtime \<Rightarrow> 'w FileSystemAdapter \<Rightarrow> Dependencies \<Rightarrow> 'w io
    \<Rightarrow> string \<times> Dependencies \<times> 'w io" where
  "getCliLocation_bundled rt ad d s =
     (if truthy_str (cliLocation d) then (case cliLocation d of Some loc \<Rightarrow> loc | None \<Rightarrow> [], d, s)
      else
        let binary = ''wakatime-cli'';
            pathsToCheck = [path_join rt (resourcesLocation d) binary,
                            ''/opt/homebrew/bin/'' @ binary,
                            ''/usr/local/bin/'' @ binary]
        in getCliLocation_loop ad pathsToCheck d s)"

section \<open>WakaTimeTracker: the dispatcher\<close>

text \<open>
  \<open>fileEntities\<close> is a JavaScript \<open>Map\<close>: it iterates in insertion order and \<open>set\<close> on a
  present key keeps the key's place, which is what \<open>AList.update\<close> does on an association
  list. \<open>options\<close> and \<open>dependencies\<close> are assigned by \<open>initialize\<close>, not by the
  constructor, so they start unset.
\<close>

record WakaTimeTracker =
  options :: "Options option"
  dependencies :: "Dependencies option"
  lastHeartbeatAt :: rat
  fileEntities :: "(string \<times> int) list"
  workingDirectory :: string
  apiKey :: "string option"

definition new_WakaTimeTracker :: "string \<Rightarrow> WakaTimeTracker" where
  "new_WakaTimeTracker wd =
     \<lparr>options = None, dependencies = None, lastHeartbeatAt = 0, fileEntities = [],
      workingDirectory = wd, apiKey = None\<rparr>"

definition new_Options :: "'w Runtime \<Rightarrow> 'w FileSystemAdapter \<Rightarrow> string \<Rightarrow> Options" where
  "new_Options rt ad wd =
     (let home = homedir ad;
          wakaFolder = path_join rt home ''.wakatime''
      in \<lparr>configFile = path_join rt home ''.wakatime.cfg'',
          internalConfigFile = path_join rt wakaFolder ''wakatime-internal.cfg'',
          logFile = path_join rt wakaFolder ''wakatime.log'',
          resourcesLocation_o = wakaFolder,
          workingDirectory_o = wd,
          configCache = Map.empty\<rparr>)"

text \<open>One \<open>try\<close> block of \<open>loadConfigs\<close>: a rejected read leaves the cache as it was.\<close>

definition loadConfig_file :: "'w FileSystemAdapter \<Rightarrow> string \<Rightarrow> Options \<Rightarrow> 'w io \<Rightarrow> Options \<times> 'w io" where
  "loadConfig_file ad f opt s =
     (case adapter_exists ad (JStr f) s of (found, s1) \<Rightarrow>
        if found then
          (case adapter_readFile ad f s1 of
             (Inr content, s2) \<Rightarrow> (opt\<lparr>configCache := (configCache opt)(f \<mapsto> content)\<rparr>, s2)
           | (Inl e, s2) \<Rightarrow> (opt, s2))
        else (opt, s1))"

definition loadConfigs :: "'w FileSystemAdapter \<Rightarrow> Options \<Rightarrow> 'w io \<Rightarrow> Options \<times> 'w io" where
  "loadConfigs ad opt s =
     (case loadConfig_file ad (configFile opt) opt s of (opt1, s1) \<Rightarrow>
        loadConfig_file ad (internalConfigFile opt1) opt1 s1)"

definition initialize :: "'w Runtime \<Rightarrow> 'w FileSystemAdapter \<Rightarrow> WakaTimeTracker \<Rightarrow> 'w io
    \<Rightarrow> WakaTimeTracker \<times> 'w io" where
  "initialize rt ad t s =
     (case loadConfigs ad (new_Options rt ad (workingDirectory t)) s of (opt, s1) \<Rightarrow>
        let d = \<lparr>resourcesLocation = resourcesLocation_o opt, cliLocation = None\<rparr>;
            key = getSetting opt ''settings'' ''api_key'' None;
            debug = getSetting opt ''settings'' ''debug'' None;
            s2 = setLevel (if debug = Some ''true'' then DEBUG else INFO) s1
        in case checkAndInstallCli rt ad d s2 of (d1, s3) \<Rightarrow>
             (t\<lparr>options := Some opt, dependencies := Some d1, apiKey := key\<rparr>, s3))"

definition isValidFilePath :: "'w FileSystemAdapter \<Rightarrow> jsval \<Rightarrow> 'w io \<Rightarrow> bool \<times> 'w io" where
  "isValidFilePath ad filePath s = adapter_exists ad filePath s"

definition calculateLineChanges :: "'w FileSystemAdapter \<Rightarrow> string \<Rightarrow> 'w io \<Rightarrow> int \<times> 'w io" where
  "calculateLineChanges ad filePath s =
     (case adapter_readFile ad filePath s of
        (Inr content, s1) \<Rightarrow> (int (length (split (CHR 0x0A) content)), s1)
      | (Inl e, s1) \<Rightarrow> (0, s1))"

definition shouldSendHeartbeat :: "'w Runtime \<Rightarrow> WakaTimeTracker \<Rightarrow> 'w io \<Rightarrow> bool \<times> 'w io" where
  "shouldSendHeartbeat rt t s =
     (case now rt s of (n, s1) \<Rightarrow> (n - lastHeartbeatAt t \<ge> 60, s1))"

definition clearEntities :: "'w Runtime \<Rightarrow> WakaTimeTracker \<Rightarrow> 'w io \<Rightarrow> WakaTimeTracker \<times> 'w io" where
  "clearEntities rt t s =
     (case now rt s of (n, s1) \<Rightarrow> (t\<lparr>fileEntities := [], lastHeartbeatAt := n\<rparr>, s1))"

text \<open>
  \<open>sendSingleHeartbeat\<close>. \<open>this.dependencies.getCliLocation()\<close> is a TypeError while
  \<open>dependencies\<close> is unset; \<open>!cliLocation || !await exists(cliLocation)\<close> checks existence
  only for a non-empty location; a rejected \<open>exec\<close> is caught and logged.
\<close>

definition sendSingleHeartbeat :: "'w Runtime \<Rightarrow> 'w FileSystemAdapter \<Rightarrow> string \<Rightarrow> int
    \<Rightarrow> WakaTimeTracker \<Rightarrow> 'w io \<Rightarrow> (exn + unit) \<times> WakaTimeTracker \<times> 'w io" where
  "sendSingleHeartbeat rt ad entity lineChanges t s =
     (let s0 = logger DEBUG (Sending entity lineChanges) s in
      if \<not> truthy_str (apiKey t) then (Inr (), t, logger WARN NoApiKey s0)
      else
        (case dependencies t of
           None \<Rightarrow> (Inl TypeError, t, s0)
         | Some d \<Rightarrow>
            (case getCliLocation rt ad d s0 of (cli, d1, s1) \<Rightarrow>
               (let t1 = t\<lparr>dependencies := Some d1\<rparr> in
                if cli = [] then (Inr (), t1, logger WARN NoCli s1)
                else
                  (case adapter_exists ad (JStr cli) s1 of (found, s2) \<Rightarrow>
                     if \<not> found then (Inr (), t1, logger WARN NoCli s2)
                     else
                       (case now rt s2 of (timestamp, s3) \<Rightarrow>
                          (let is_write = True;
                               args = [''--entity'', entity, ''--time'', String_of rt timestamp]
                                        @ (if is_write then [''--write''] else []);
                               env = (case apiKey t of
                                        None \<Rightarrow> None
                                      | Some k \<Rightarrow>
                                          if k \<noteq> [] then Some [(''WAKATIME_API_KEY'', k)]
                                          else None)
                           in (case adapter_exec ad cli args env s3 of
                                 (Inr (stdout, stderr), s4) \<Rightarrow>
                                   (Inr (), t1,
                                    (let s5 = logger DEBUG (CliStdout stdout) s4
                                     in if stderr \<noteq> [] then logger WARN (CliStderr stderr) s5
                                        else s5))
                               | (Inl e, s4) \<Rightarrow>
                                   (Inr (), t1, logger ERROR (HeartbeatError e) s4)))))))))"

text \<open>The \<open>for ... of this.fileEntities.entries()\<close> loop of \<open>sendHeartbeats\<close>.\<close>

fun sendHeartbeats_loop :: "'w Runtime \<Rightarrow> 'w FileSystemAdapter \<Rightarrow> (string \<times> int) list
    \<Rightarrow> WakaTimeTracker \<Rightarrow> 'w io \<Rightarrow> (exn + unit) \<times> WakaTimeTracker \<times> 'w io" where
  "sendHeartbeats_loop rt ad [] t s = (Inr (), t, s)"
| "sendHeartbeats_loop rt ad ((entity, changes) # rest) t s =
     (case sendSingleHeartbeat rt ad entity changes t s of
        (Inl e, t1, s1) \<Rightarrow> (Inl e, t1, s1)
      | (Inr u, t1, s1) \<Rightarrow> sendHeartbeats_loop rt ad rest t1 s1)"

definition sendHeartbeats :: "'w Runtime \<Rightarrow> 'w FileSystemAdapter \<Rightarrow> WakaTimeTracker \<Rightarrow> 'w io
    \<Rightarrow> (exn + unit) \<times> WakaTimeTracker \<times> 'w io" where
  "sendHeartbeats rt ad t s = sendHeartbeats_loop rt ad (fileEntities t) t s"

text \<open>The public \<open>sendHeartbeat\<close>: flush now, then clear.\<close>

definition sendHeartbeat :: "'w Runtime \<Rightarrow> 'w FileSystemAdapter \<Rightarrow> WakaTimeTracker \<Rightarrow> 'w io
    \<Rightarrow> (exn + unit) \<times> WakaTimeTracker \<times> 'w io" where
  "sendHeartbeat rt ad t s =
     (case sendHeartbeats rt ad t s of
        (Inl e, t1, s1) \<Rightarrow> (Inl e, t1, s1)
      | (Inr u, t1, s1) \<Rightarrow> (case clearEntities rt t1 s1 of (t2, s2) \<Rightarrow> (Inr (), t2, s2)))"

text \<open>
  \<open>trackFileEdit\<close>. The existence check stands before the \<open>try\<close>; everything after it is
  inside, so an exception there is logged and swallowed. \<open>path.isAbsolute\<close> throws a
  TypeError on a value that is not a string. \<open>lineChanges || ...\<close> takes the hint when
  it is not zero.
\<close>

definition trackFileEdit :: "'w Runtime \<Rightarrow> 'w FileSystemAdapter \<Rightarrow> jsval \<Rightarrow> string \<Rightarrow> int
    \<Rightarrow> WakaTimeTracker \<Rightarrow> 'w io \<Rightarrow> WakaTimeTracker \<times> 'w io" where
  "trackFileEdit rt ad filePath operation lineChanges t s =
     (case isValidFilePath ad filePath s of (valid, s1) \<Rightarrow>
        if \<not> valid then (t, s1)
        else
          (case filePath of
             JStr fp \<Rightarrow>
               (let fullPath = (if path_isAbsolute rt fp then fp
                                else path_join rt (workingDirectory t) fp)
                in (case (if operation = ''write'' \<or> operation = ''edit'' then
                            (case (if lineChanges \<noteq> 0 then (lineChanges, s1)
                                   else calculateLineChanges ad fullPath s1) of
                               (changes, s2) \<Rightarrow>
                                 (t\<lparr>fileEntities :=
                                      AList.update fullPath
                                        ((case map_of (fileEntities t) fullPath of
                                            None \<Rightarrow> 0 | Some n \<Rightarrow> n) + changes)
                                        (fileEntities t)\<rparr>, s2))
                          else (t, s1)) of
                      (t2, s2) \<Rightarrow>
                        (case shouldSendHeartbeat rt t2 s2 of (due, s3) \<Rightarrow>
                           if due then
                             (case sendHeartbeats rt ad t2 s3 of
                                (Inr u, t4, s4) \<Rightarrow> clearEntities rt t4 s4
                              | (Inl e, t4, s4) \<Rightarrow> (t4, logger ERROR (TrackError e) s4))
                           else (t2, s3))))
           | _ \<Rightarrow> (t, logger ERROR (TrackError TypeError) s1)))"

text \<open>
  The \<open>if (operation === 'write' || operation === 'edit')\<close> block of \<open>trackFileEdit\<close> on
  its own, as the definition of \<open>trackFileEdit\<close> has it; the proofs name it.
\<close>

definition accumulate :: "'w FileSystemAdapter \<Rightarrow> string \<Rightarrow> string \<Rightarrow> int
    \<Rightarrow> WakaTimeTracker \<Rightarrow> 'w io \<Rightarrow> WakaTimeTracker \<times> 'w io" where
  "accumulate ad fullPath operation lineChanges t s1 =
     (if operation = ''write'' \<or> operation = ''edit'' then
        (case (if lineChanges \<noteq> 0 then (lineChanges, s1)
               else calculateLineChanges ad fullPath s1) of
           (changes, s2) \<Rightarrow>
             (t\<lparr>fileEntities :=
                  AList.update fullPath
                    ((case map_of (fileEntities t) fullPath of
                        None \<Rightarrow> 0 | Some n \<Rightarrow> n) + changes)
                    (fileEntities t)\<rparr>, s2))
      else (t, s1))"

text \<open>
  \<open>trackToolUsage\<close> of \<open>src/tracker\<close>: \<open>args.filePath\<close> is read without a check of
  \<open>args\<close>, and only when the tool name matched (\<open>&&\<close> evaluates left to right).
\<close>

definition trackToolUsage :: "'w Runtime \<Rightarrow> 'w FileSystemAdapter \<Rightarrow> string \<Rightarrow> jsval \<Rightarrow> jsval
    \<Rightarrow> WakaTimeTracker \<Rightarrow> 'w io \<Rightarrow> (exn + unit) \<times> WakaTimeTracker \<times> 'w io" where
  "trackToolUsage rt ad toolName args output t s =
     (if toolName = ''read'' then
        (case getProp args ''filePath'' of
           Inl e \<Rightarrow> (Inl e, t, s)
         | Inr v \<Rightarrow>
             if truthy v then
               (case trackFileEdit rt ad v ''read'' 0 t s of (t1, s1) \<Rightarrow> (Inr (), t1, s1))
             else (Inr (), t, s))
      else if toolName = ''write'' \<or> toolName = ''edit'' then
        (case getProp args ''filePath'' of
           Inl e \<Rightarrow> (Inl e, t, s)
         | Inr v \<Rightarrow>
             if truthy v then
               (case trackFileEdit rt ad v toolName 0 t s of (t1, s1) \<Rightarrow> (Inr (), t1, s1))
             else (Inr (), t, s))
      else (Inr (), t, s))"

section \<open>The bundled plugin's dispatcher\<close>

text \<open>
  \<open>.opencode/plugin/wakatime.ts\<close> carries its own copy of the three classes. Its tracker
  has the same fields (\<open>options\<close> and \<open>dependencies\<close> are set by the constructor), so
  the records above are reused. It differs in the places the definitions below show: the
  path is resolved before the existence check, the fallback change count is 1, there is
  no \<open>try\<close> around the body of \<open>trackFileEdit\<close>, the CLI path is not re-checked before
  the execution, and \<open>trackToolUsage\<close> checks its arguments first.
\<close>

definition sendSingleHeartbeat_bundled :: "'w Runtime \<Rightarrow> 'w FileSystemAdapter \<Rightarrow> string \<Rightarrow> int
    \<Rightarrow> WakaTimeTracker \<Rightarrow> 'w io \<Rightarrow> (exn + unit) \<times> WakaTimeTracker \<times> 'w io" where
  "sendSingleHeartbeat_bundled rt ad entity changes t s =
     (if \<not> truthy_str (apiKey t) then (Inr (), t, s)
      else
        (case dependencies t of
           None \<Rightarrow> (Inl TypeError, t, s)
         | Some d \<Rightarrow>
            (case getCliLocation_bundled rt ad d s of (cli, d1, s1) \<Rightarrow>
               (let t1 = t\<lparr>dependencies := Some d1\<rparr> in
                if cli = [] then (Inr (), t1, s1)
                else
                  (case now rt s1 of (timestamp, s2) \<Rightarrow>
                     (let args = [''--entity'', entity, ''--time'', String_of rt timestamp,
                                  ''--write''];
                          env = Some [(''WAKATIME_API_KEY'',
                                       (case apiKey t of None \<Rightarrow> [] | Some k \<Rightarrow> k))]
                      in (case adapter_exec ad cli args env s2 of
                            (Inr r, s3) \<Rightarrow> (Inr (), t1, s3)
                          | (Inl e, s3) \<Rightarrow>
                              (Inr (), t1, logger ERROR (HeartbeatError e) s3))))))))"

fun sendHeartbeats_loop_bundled :: "'w Runtime \<Rightarrow> 'w FileSystemAdapter \<Rightarrow> (string \<times> int) list
    \<Rightarrow> WakaTimeTracker \<Rightarrow> 'w io \<Rightarrow> (exn + unit) \<times> WakaTimeTracker \<times> 'w io" where
  "sendHeartbeats_loop_bundled rt ad [] t s = (Inr (), t, s)"
| "sendHeartbeats_loop_bundled rt ad ((entity, changes) # rest) t s =
     (case sendSingleHeartbeat_bundled rt ad entity changes t s of
        (Inl e, t1, s1) \<Rightarrow> (Inl e, t1, s1)
      | (Inr u, t1, s1) \<Rightarrow> sendHeartbeats_loop_bundled rt ad rest t1 s1)"

definition sendHeartbeats_bundled :: "'w Runtime \<Rightarrow> 'w FileSystemAdapter \<Rightarrow> WakaTimeTracker \<Rightarrow> 'w io
    \<Rightarrow> (exn + unit) \<times> WakaTimeTracker \<times> 'w io" where
  "sendHeartbeats_bundled rt ad t s = sendHeartbeats_loop_bundled rt ad (fileEntities t) t s"

definition sendHeartbeat_bundled :: "'w Runtime \<Rightarrow> 'w FileSystemAdapter \<Rightarrow> WakaTimeTracker \<Rightarrow> 'w io
    \<Rightarrow> (exn + unit) \<times> WakaTimeTracker \<times> 'w io" where
  "sendHeartbeat_bundled rt ad t s =
     (case sendHeartbeats_bundled rt ad t s of
        (Inl e, t1, s1) \<Rightarrow> (Inl e, t1, s1)
      | (Inr u, t1, s1) \<Rightarrow>
          (case now rt s1 of (n, s2) \<Rightarrow>
             (Inr (), t1\<lparr>fileEntities := [], lastHeartbeatAt := n\<rparr>, s2)))"

definition trackFileEdit_bundled :: "'w Runtime \<Rightarrow> 'w FileSystemAdapter \<Rightarrow> string \<Rightarrow> string \<Rightarrow> int
    \<Rightarrow> WakaTimeTracker \<Rightarrow> 'w io \<Rightarrow> (exn + unit) \<times> WakaTimeTracker \<times> 'w io" where
  "trackFileEdit_bundled rt ad filePath operation lineChanges t s =
     (let fullPath = (if path_isAbsolute rt filePath then filePath
                      else path_join rt (workingDirectory t) filePath)
      in (case adapter_exists ad (JStr fullPath) s of (found, s1) \<Rightarrow>
            if \<not> found then (Inr (), t, s1)
            else
              (let t2 = (if operation = ''write'' \<or> operation = ''edit'' then
                           (let changes = (if lineChanges \<noteq> 0 then lineChanges else 1)
                            in t\<lparr>fileEntities :=
                                   AList.update fullPath
                                     ((case map_of (fileEntities t) fullPath of
                                         None \<Rightarrow> 0 | Some n \<Rightarrow> n) + changes)
                                     (fileEntities t)\<rparr>)
                         else t)
               in (case now rt s1 of (n, s2) \<Rightarrow>
                     if n - lastHeartbeatAt t2 \<ge> 60 then
                       (case sendHeartbeats_bundled rt ad t2 s2 of
                          (Inl e, t3, s3) \<Rightarrow> (Inl e, t3, s3)
                        | (Inr u, t3, s3) \<Rightarrow>
                            (case now rt s3 of (n2, s4) \<Rightarrow>
                               (Inr (), t3\<lparr>fileEntities := [], lastHeartbeatAt := n2\<rparr>, s4)))
                     else (Inr (), t2, s2)))))"

text \<open>
  \<open>args.filePath || args.file_path || args.path\<close> reads a later field only when the
  earlier ones are falsy.
\<close>

definition trackToolUsage_bundled :: "'w Runtime \<Rightarrow> 'w FileSystemAdapter \<Rightarrow> string \<Rightarrow> jsval \<Rightarrow> jsval
    \<Rightarrow> WakaTimeTracker \<Rightarrow> 'w io \<Rightarrow> (exn + unit) \<times> WakaTimeTracker \<times> 'w io" where
  "trackToolUsage_bundled rt ad toolName args output t s =
     (if \<not> truthy args then (Inr (), t, s)
      else
        (case getProp args ''filePath'' of
           Inl e \<Rightarrow> (Inl e, t, s)
         | Inr v1 \<Rightarrow>
            (case (if truthy v1 then Inr v1 else getProp args ''file_path'') of
               Inl e \<Rightarrow> (Inl e, t, s)
             | Inr v2 \<Rightarrow>
                (case (if truthy v2 then Inr v2 else getProp args ''path'') of
                   Inl e \<Rightarrow> (Inl e, t, s)
                 | Inr filePath \<Rightarrow>
                    (case filePath of
                       JStr fp \<Rightarrow>
                         if fp = [] then (Inr (), t, s)
                         else if toolName = ''read'' \<or> toolName = ''read_file'' then
                           trackFileEdit_bundled rt ad fp ''read'' 0 t s
                         else if toolName = ''write'' \<or> toolName = ''write_file''
                                 \<or> toolName = ''edit'' \<or> toolName = ''replace'' then
                           trackFileEdit_bundled rt ad fp toolName 0 t s
                         else (Inr (), t, s)
                     | _ \<Rightarrow> (Inr (), t, s))))))"

section \<open>Observations on the trace\<close>

text \<open>
  An external CLI invocation is an \<open>Exec\<close> event. \<open>sendSingleHeartbeat\<close> of \<open>src/tracker\<close>
  opens with the debug line "Sending heartbeat for ...", so a \<open>Sending\<close> event marks one
  attempt to report one entity, whether the invocation then runs, fails or is skipped.
\<close>

fun isExec :: "event \<Rightarrow> bool" where
  "isExec (Exec cmd args env) = True"
| "isExec e = False"

fun isSending :: "event \<Rightarrow> bool" where
  "isSending (Log l (Sending entity n)) = True"
| "isSending e = False"

text \<open>The entity an invocation reports: the argument after \<open>--entity\<close>.\<close>

fun exec_entity :: "event \<Rightarrow> string option" where
  "exec_entity (Exec cmd (a # p # rest) env) = (if a = ''--entity'' then Some p else None)"
| "exec_entity e = None"

text \<open>
  After \<open>initialize\<close> the tracker has its \<open>dependencies\<close>; before it, it has no API key.
  Every state the public methods can reach satisfies this.
\<close>

definition wired :: "WakaTimeTracker \<Rightarrow> bool" where
  "wired t = (dependencies t \<noteq> None \<or> \<not> truthy_str (apiKey t))"

section \<open>Concrete configurations and hosts\<close>

text \<open>Config files used to evaluate \<open>getSetting\<close>.\<close>

definition content_upper :: string where
  "content_upper = ''[Settings]'' @ [CHR 0x0A] @ ''api_key = k1''"

definition content_equals :: string where
  "content_equals = ''[settings]'' @ [CHR 0x0A] @ ''api_key = a=b''"

definition content_nulls :: string where
  "content_nulls = ''# comment'' @ [CHR 0x0A] @ ''[Settings]'' @ [CHR 0x0A]
                   @ ''api_key = a'' @ [CHR 0x00] @ ''b=c ''"

text \<open>
  Two sections with the same key; the header and the key line of the second carry white
  space, and the value a null character and a second \<open>=\<close>.
\<close>

definition content_sections :: string where
  "content_sections =
     ''[other]'' @ [CHR 0x0A] @ ''api_key = X'' @ [CHR 0x0A] @ '' [Settings] '' @ [CHR 0x0A]
     @ ''debug = false'' @ [CHR 0x0A] @ ''  api_key= a'' @ [CHR 0x00] @ ''b=c '' @ [CHR 0x0A]"

definition options_with :: "string \<Rightarrow> Options" where
  "options_with content =
     \<lparr>configFile = ''/home/u/.wakatime.cfg'',
      internalConfigFile = ''/home/u/.wakatime/wakatime-internal.cfg'',
      logFile = ''/home/u/.wakatime/wakatime.log'',
      resourcesLocation_o = ''/home/u/.wakatime'',
      workingDirectory_o = ''/work'',
      configCache = [''/home/u/.wakatime.cfg'' \<mapsto> content]\<rparr>"

text \<open>
  A host whose clock reads a fixed time and whose adapter knows a fixed list of present
  files; every process execution succeeds with empty output.
\<close>

definition rt_at :: "int \<Rightarrow> 'w Runtime" where
  "rt_at ms =
     \<lparr>Date_now = (\<lambda>w. (ms, w)),
      path_join = (\<lambda>a b. a @ ''/'' @ b),
      path_isAbsolute = (\<lambda>p. take 1 p = ''/''),
      String_of = (\<lambda>r. ''T'')\<rparr>"

definition ad_static :: "string list \<Rightarrow> 'w FileSystemAdapter" where
  "ad_static present =
     \<lparr>exists = (\<lambda>p w. (case p of JStr q \<Rightarrow> q \<in> set present | _ \<Rightarrow> False, w)),
      readFile = (\<lambda>p w. (if p \<in> set present then Inr ''one'' else Inl (Rejected ''ENOENT''), w)),
      exec = (\<lambda>cmd args env w. (Inr ([], []), w)),
      homedir = ''/home/u''\<rparr>"

definition deps_found :: Dependencies where
  "deps_found = \<lparr>resourcesLocation = ''/home/u/.wakatime'',
                 cliLocation = Some ''/home/u/.wakatime/wakatime-cli''\<rparr>"

definition tracker_pending :: WakaTimeTracker where
  "tracker_pending =
     \<lparr>options = None, dependencies = Some deps_found, lastHeartbeatAt = 0,
      fileEntities = [(''/w/a.txt'', 3), (''/w/b.txt'', 1)],
      workingDirectory = ''/w'', apiKey = Some ''K''\<rparr>"

definition present0 :: "string list" where
  "present0 = [''/home/u/.wakatime/wakatime-cli'', ''/w/a.txt'', ''/w/b.txt'']"

text \<open>
  An adapter over a changing outside: the state of the outside is the list of the files
  present.
\<close>

definition ad_fs :: "(string list) FileSystemAdapter" where
  "ad_fs =
     \<lparr>exists = (\<lambda>p w. (case p of JStr q \<Rightarrow> q \<in> set w | _ \<Rightarrow> False, w)),
      readFile = (\<lambda>p w. (if p \<in> set w then Inr ''one'' else Inl (Rejected ''ENOENT''), w)),
      exec = (\<lambda>cmd args env w. (Inr ([], []), w)),
      homedir = ''/home/u''\<rparr>"

definition deps_fresh :: Dependencies where
  "deps_fresh = \<lparr>resourcesLocation = ''/home/u/.wakatime'', cliLocation = None\<rparr>"

text \<open>A tracker straight from its constructor.\<close>

definition tracker_fresh :: WakaTimeTracker where
  "tracker_fresh = new_WakaTimeTracker ''/w''"

section \<open>Strings\<close>

lemma split_not_Nil: "split sep s \<noteq> []"
  by (induction s) (auto split: list.splits)

lemma hd_split: "hd (split sep s) = takeWhile (\<lambda>c. c \<noteq> sep) s"
  using split_not_Nil [of sep]
  by (induction s) (auto split: list.splits)

lemma split_append_sep:
  "sep \<notin> set a \<Longrightarrow> split sep (a @ sep # b) = a # split sep b"
  using split_not_Nil [of sep]
  by (induction a) (auto split: list.splits)

text \<open>The number of pieces is the number of separators plus one.\<close>

lemma length_split: "length (split sep s) = Suc (length (filter (\<lambda>c. c = sep) s))"
  using split_not_Nil [of sep]
  by (induction s) (auto split: list.splits)

lemma set_split_subset_all: "\<forall>l\<in>set (split sep s). set l \<subseteq> set s"
proof (induction s)
  case Nil
  then show ?case by simp
next
  case (Cons c cs)
  then show ?case
    using split_not_Nil [of sep cs]
    by (cases "split sep cs") (fastforce split: if_splits)+
qed

lemma set_split_subset: "l \<in> set (split sep s) \<Longrightarrow> set l \<subseteq> set s"
  using set_split_subset_all by blast

lemma trim_ws_prefix: "isWhiteSpace c \<Longrightarrow> trim (c # s) = trim s"
  by (simp add: trim_def)

lemma trim_ws_suffix: "isWhiteSpace c \<Longrightarrow> trim (s @ [c]) = trim s"
proof (cases "\<forall>x\<in>set s. isWhiteSpace x")
  case True
  assume "isWhiteSpace c"
  with True have "dropWhile isWhiteSpace (s @ [c]) = []" "dropWhile isWhiteSpace s = []"
    by simp_all
  then show ?thesis unfolding trim_def by (simp only: rev.simps dropWhile.simps)
next
  case False
  assume c: "isWhiteSpace c"
  from False obtain x where "x \<in> set s" "\<not> isWhiteSpace x" by blast
  then have "dropWhile isWhiteSpace (s @ [c]) = dropWhile isWhiteSpace s @ [c]"
    by (rule dropWhile_append1)
  with c show ?thesis by (simp add: trim_def)
qed

lemma trim_Cons_nonws:
  "\<not> isWhiteSpace c \<Longrightarrow> trim (c # s) = c # rev (dropWhile isWhiteSpace (rev s))"
  by (simp add: trim_def dropWhile_append3)

lemma trim_not_Nil: "c \<in> set s \<Longrightarrow> \<not> isWhiteSpace c \<Longrightarrow> trim s \<noteq> []"
proof -
  assume a: "c \<in> set s" "\<not> isWhiteSpace c"
  then have "dropWhile isWhiteSpace s \<noteq> []" by auto
  then obtain d ds where d: "dropWhile isWhiteSpace s = d # ds"
    by (cases "dropWhile isWhiteSpace s") auto
  then have "\<not> isWhiteSpace d" using hd_dropWhile [of isWhiteSpace s] by auto
  then show ?thesis using d by (simp add: trim_def dropWhile_append3)
qed

lemma not_upper_shift:
  "isUpperCase c \<Longrightarrow> \<not> isUpperCase (char_of (of_char c + (32 :: nat)))"
  by (auto simp: isUpperCase_def Let_def)

lemma toLowerCase_no_upper: "x \<in> set (toLowerCase s) \<Longrightarrow> \<not> isUpperCase x"
  by (auto simp: toLowerCase_def dest: not_upper_shift split: if_splits)

lemma not_ws_punct [simp]:
  "\<not> isWhiteSpace (CHR ''['')" "\<not> isWhiteSpace (CHR '']'')" "\<not> isWhiteSpace (CHR ''='')"
  "isWhiteSpace (CHR '' '')"
  by (simp_all add: isWhiteSpace_def)

section \<open>The configuration reader\<close>

subsection \<open>Sections are matched against the lowercased header\<close>

text \<open>
  \<open>currentSection\<close> is either the initial empty string or the result of \<open>toLowerCase\<close>, so
  it never holds an uppercase letter; the loop returns only when it equals \<open>section\<close>.
\<close>

lemma getSetting_lines_upper:
  "\<exists>c\<in>set section. isUpperCase c \<Longrightarrow> \<forall>c\<in>set cur. \<not> isUpperCase c
   \<Longrightarrow> getSetting_lines section key cur lines = None"
proof (induction lines arbitrary: cur)
  case Nil
  show ?case by simp
next
  case (Cons line lines)
  have ne: "cur \<noteq> section" using Cons.prems by auto
  have low: "\<forall>c\<in>set (toLowerCase x). \<not> isUpperCase c" for x
    using toLowerCase_no_upper by blast
  show ?case
    using ne Cons.IH [OF Cons.prems(1) low] Cons.IH [OF Cons.prems(1) Cons.prems(2)]
    by simp
qed

lemma getSetting_lines_bundled_upper:
  "\<exists>c\<in>set section. isUpperCase c \<Longrightarrow> \<forall>c\<in>set cur. \<not> isUpperCase c
   \<Longrightarrow> getSetting_lines_bundled section key cur lines = None"
proof (induction lines arbitrary: cur)
  case Nil
  show ?case by simp
next
  case (Cons line lines)
  have ne: "cur \<noteq> section" using Cons.prems by auto
  have low: "\<forall>c\<in>set (toLowerCase x). \<not> isUpperCase c" for x
    using toLowerCase_no_upper by blast
  show ?case
    using ne Cons.IH [OF Cons.prems(1) low] Cons.IH [OF Cons.prems(1) Cons.prems(2)]
    by (simp add: Let_def)
qed

text \<open>
  C10. The section argument is compared verbatim with the lowercased header: for a
  section argument that contains an uppercase letter, \<open>getSetting\<close> returns the absent
  result whatever the cached config text is. This holds for \<open>Options.getSetting\<close> of
  \<open>src/options\<close> and for the copy in the bundled plugin.
\<close>

theorem getSetting_uppercase_section_absent:
  assumes "\<exists>c\<in>set section. isUpperCase c"
  shows "getSetting opt section key internal = None
         \<and> getSetting_bundled opt section key = None"
  using getSetting_lines_upper [OF assms, of "[]"]
    getSetting_lines_bundled_upper [OF assms, of "[]"]
  by (simp add: getSetting_def getSetting_bundled_def split: option.splits)

text \<open>
  The file says \<open>[Settings]\<close>: asking for \<open>Settings\<close> finds nothing, asking for
  \<open>settings\<close> finds the key.
\<close>

theorem getSetting_uppercase_section_absent_witness:
  "(\<exists>c\<in>set ''Settings''. isUpperCase c)
   \<and> getSetting (options_with content_upper) ''Settings'' ''api_key'' None = None
   \<and> getSetting_bundled (options_with content_upper) ''Settings'' ''api_key'' = None
   \<and> getSetting (options_with content_upper) ''settings'' ''api_key'' None = Some ''k1''"
proof -
  have u: "\<exists>c\<in>set ''Settings''. isUpperCase c" by (simp add: isUpperCase_def)
  have "getSetting (options_with content_upper) ''settings'' ''api_key'' None = Some ''k1''"
    by code_simp
  with u getSetting_uppercase_section_absent
           [OF u, of "options_with content_upper" "''api_key''" None]
  show ?thesis by simp
qed

subsection \<open>The value returned for a key line\<close>

text \<open>The tests of the loop are the spec's notions.\<close>

lemma is_header_code:
  "(startsWith (trim l) ''['' \<and> endsWith (trim l) '']'') = is_header l"
proof (cases "trim l")
  case Nil
  then show ?thesis by (simp add: is_header_def startsWith_def)
next
  case (Cons c cs)
  show ?thesis
  proof (cases cs rule: rev_cases)
    case Nil
    with Cons show ?thesis by (auto simp: is_header_def startsWith_def endsWith_def)
  next
    case (snoc ys y)
    with Cons show ?thesis by (simp add: is_header_def startsWith_def endsWith_def)
  qed
qed

lemma is_header_form: "is_header l = (\<exists>S. trim l = ''['' @ S @ '']'')"
proof (cases "trim l")
  case Nil
  then show ?thesis by (simp add: is_header_def)
next
  case (Cons c cs)
  show ?thesis
  proof (cases cs rule: rev_cases)
    case Nil
    with Cons show ?thesis by (simp add: is_header_def)
  next
    case (snoc ys y)
    with Cons show ?thesis by (auto simp: is_header_def)
  qed
qed

lemma header_name_code:
  assumes "is_header l"
  shows "toLowerCase (substring 1 (length (trim l) - 1) (trim l)) = header_name l"
proof -
  from assms obtain S where t: "trim l = ''['' @ S @ '']''" by (auto simp: is_header_form)
  show ?thesis by (simp add: t header_name_def substring_def butlast_append)
qed

lemma has_sep_iff: "(length (split sep l) > 1) = (sep \<in> set l)"
  by (simp add: length_split filter_empty_conv) 

lemma key_test_code:
  "(trim (hd (split (CHR ''='') l)) = k \<and> length (split (CHR ''='') l) > 1) = carries_key k l"
  using has_sep_iff [of "CHR ''=''" l]
  by (auto simp: carries_key_def hd_split simp del: split.simps)

lemma split_nth1:
  assumes "sep \<in> set l"
  shows "split sep l ! 1 = takeWhile (\<lambda>c. c \<noteq> sep) (tl (dropWhile (\<lambda>c. c \<noteq> sep) l))"
proof -
  from assms obtain a b where l: "l = a @ sep # b" "sep \<notin> set a"
    by (auto dest: split_list_first)
  have d: "dropWhile (\<lambda>c. c \<noteq> sep) (a @ sep # b) = sep # b"
    using l(2) by (induction a) auto
  show ?thesis
    using split_not_Nil [of sep b]
    by (simp only: l(1) split_append_sep [OF l(2)] d) (simp add: hd_split [symmetric] hd_conv_nth)
qed

lemma second_field_code:
  "carries_key k l \<Longrightarrow> split (CHR ''='') l ! 1 = second_field l"
  using split_nth1 [of "CHR ''=''" l]
  by (simp add: carries_key_def second_field_def del: split.simps)

lemma getSetting_lines_Cons:
  "getSetting_lines section key cur (l # ls) =
     (if is_header l then getSetting_lines section key (header_name l) ls
      else if cur = section \<and> carries_key key l
           then Some (removeNulls (trim (second_field l)))
           else getSetting_lines section key cur ls)"
proof (cases "is_header l")
  case True
  then show ?thesis
    using header_name_code [OF True] by (simp add: is_header_code)
next
  case False
  show ?thesis
  proof (cases "carries_key key l")
    case True
    with False show ?thesis
      using key_test_code [of l key] second_field_code [OF True]
      by (simp add: is_header_code Let_def del: split.simps)
  next
    case nk: False
    with False show ?thesis
      using key_test_code [of l key]
      by (auto simp: is_header_code Let_def simp del: split.simps)
  qed
qed

lemma section_from_Cons:
  "section_from cur (x # ls) = section_from (if is_header x then header_name x else cur) ls"
  by (cases "filter is_header (rev ls)") (simp_all add: section_from_def)

lemma getSetting_lines_first_key_line:
  assumes "\<not> is_header line" "carries_key k line"
  shows "section_from cur earlier = section \<Longrightarrow>
    \<forall>i<length earlier. \<not> (\<not> is_header (earlier ! i) \<and> section_from cur (take i earlier) = section
                            \<and> carries_key k (earlier ! i)) \<Longrightarrow>
    getSetting_lines section k cur (earlier @ line # below)
      = Some (removeNulls (trim (second_field line)))"
proof (induction earlier arbitrary: cur)
  case Nil
  then have "cur = section" by (simp add: section_from_def)
  with assms show ?case by (simp add: getSetting_lines_Cons del: getSetting_lines.simps)
next
  case (Cons x earlier)
  let ?c = "if is_header x then header_name x else cur"
  have sec: "section_from ?c earlier = section"
    using Cons.prems(1) by (simp only: section_from_Cons)
  have none: "\<forall>i<length earlier. \<not> (\<not> is_header (earlier ! i)
                \<and> section_from ?c (take i earlier) = section \<and> carries_key k (earlier ! i))"
  proof (intro allI impI)
    fix i assume "i < length earlier"
    then have "Suc i < length (x # earlier)" by simp
    with Cons.prems(2) have "\<not> (\<not> is_header ((x # earlier) ! Suc i)
        \<and> section_from cur (take (Suc i) (x # earlier)) = section
        \<and> carries_key k ((x # earlier) ! Suc i))"
      by blast
    then show "\<not> (\<not> is_header (earlier ! i)
                \<and> section_from ?c (take i earlier) = section \<and> carries_key k (earlier ! i))"
      by (simp add: section_from_Cons)
  qed
  note ih = Cons.IH [OF sec none]
  have first: "\<not> (\<not> is_header x \<and> cur = section \<and> carries_key k x)"
    using Cons.prems(2) by (auto simp: section_from_def dest: spec [of _ 0])
  show ?case
    using ih first by (auto simp: getSetting_lines_Cons simp del: getSetting_lines.simps)
qed

lemma trim_ws_left: "\<forall>c\<in>set a. isWhiteSpace c \<Longrightarrow> trim (a @ s) = trim s"
  by (induction a) (simp_all add: trim_ws_prefix)

lemma trim_ws_right: "\<forall>c\<in>set b. isWhiteSpace c \<Longrightarrow> trim (s @ b) = trim s"
proof (induction b rule: rev_induct)
  case Nil
  show ?case by simp
next
  case (snoc x xs)
  then have "trim ((s @ xs) @ [x]) = trim (s @ xs)" by (intro trim_ws_suffix) simp
  with snoc show ?case by simp
qed

lemma hd_trim_not_ws:
  assumes "trim k = k" "k = c # cs"
  shows "\<not> isWhiteSpace c"
proof
  assume ws: "isWhiteSpace c"
  have "length (trim (c # cs)) \<le> length cs"
    using ws length_dropWhile_le [of isWhiteSpace "rev (dropWhile isWhiteSpace cs)"]
      length_dropWhile_le [of isWhiteSpace cs]
    by (simp add: trim_def)
  with assms show False by simp
qed

lemma takeWhile_upto_sep:
  "sep \<notin> set a \<Longrightarrow> takeWhile (\<lambda>c. c \<noteq> sep) (a @ sep # b) = a"
  by (induction a) auto

lemma dropWhile_upto_sep:
  "sep \<notin> set a \<Longrightarrow> dropWhile (\<lambda>c. c \<noteq> sep) (a @ sep # b) = sep # b"
  by (induction a) auto

lemma key_value_line:
  assumes ws: "\<forall>c\<in>set (lead @ gap). isWhiteSpace c"
    and k: "trim k = k" "CHR ''='' \<notin> set k" "\<not> startsWith k ''[''"
  shows "carries_key k (lead @ k @ gap @ ''='' @ v)"
    and "second_field (lead @ k @ gap @ ''='' @ v) = takeWhile (\<lambda>c. c \<noteq> CHR ''='') v"
    and "\<not> is_header (lead @ k @ gap @ ''='' @ v)"
proof -
  have nw: "\<not> isWhiteSpace (CHR ''='')" by simp
  from ws have "\<forall>c\<in>set lead. isWhiteSpace c" "\<forall>c\<in>set gap. isWhiteSpace c" by simp_all
  with nw have "CHR ''='' \<notin> set lead" "CHR ''='' \<notin> set gap" by blast+
  with k(2) have noeq: "CHR ''='' \<notin> set (lead @ k @ gap)" by simp
  have line: "lead @ k @ gap @ ''='' @ v = (lead @ k @ gap) @ CHR ''='' # v" by simp
  have tw: "takeWhile (\<lambda>c. c \<noteq> CHR ''='') ((lead @ k @ gap) @ CHR ''='' # v) = lead @ k @ gap"
    using noeq by (rule takeWhile_upto_sep)
  have dw: "dropWhile (\<lambda>c. c \<noteq> CHR ''='') ((lead @ k @ gap) @ CHR ''='' # v) = CHR ''='' # v"
    using noeq by (rule dropWhile_upto_sep)
  have tk: "trim (lead @ k @ gap) = k"
    using ws k(1) trim_ws_left [of lead "k @ gap"] trim_ws_right [of gap k] by simp
  show "carries_key k (lead @ k @ gap @ ''='' @ v)"
    by (simp only: line carries_key_def tw tk) simp
  show "second_field (lead @ k @ gap @ ''='' @ v) = takeWhile (\<lambda>c. c \<noteq> CHR ''='') v"
    by (simp only: line second_field_def dw) simp
  define L where "L = lead @ k @ gap @ ''='' @ v"
  have tl: "trim L = trim (k @ (gap @ CHR ''='' # v))"
    using ws trim_ws_left [of lead "k @ (gap @ CHR ''='' # v)"] by (simp add: L_def)
  have "\<exists>c rest. trim L = c # rest \<and> c \<noteq> CHR ''[''"
  proof (cases k)
    case Nil
    have "trim L = trim (CHR ''='' # v)"
      using ws trim_ws_left [of gap "CHR ''='' # v"] by (simp add: tl Nil)
    also have "\<dots> = CHR ''='' # rev (dropWhile isWhiteSpace (rev v))"
      by (rule trim_Cons_nonws) simp
    finally show ?thesis by simp
  next
    case (Cons c cs)
    have nws: "\<not> isWhiteSpace c" using hd_trim_not_ws [OF k(1) Cons] .
    have nb: "c \<noteq> CHR ''[''" using k(3) Cons by (simp add: startsWith_def)
    have "trim L = c # rev (dropWhile isWhiteSpace (rev (cs @ (gap @ CHR ''='' # v))))"
      using trim_Cons_nonws [OF nws, of "cs @ (gap @ CHR ''='' # v)"] by (simp add: tl Cons)
    with nb show ?thesis by blast
  qed
  then have "\<not> is_header L" by (auto simp: is_header_def)
  then show "\<not> is_header (lead @ k @ gap @ ''='' @ v)" unfolding L_def .
qed

text \<open>
  C3, as the code of \<open>src/options\<close> has it. \<open>line.split('=')\<close> splits at every \<open>=\<close> and
  the code returns \<open>parts[1]\<close>. Take a config text and one of its lines of the form
  \<open>k = v\<close> (white space before \<open>k\<close> and before the \<open>=\<close> is free). If the section in force
  at that line is the section argument (the last header above the line, lowercased, is
  the section; other lines may stand between the two), and no earlier line of that
  section carries the key \<open>k\<close> (lines of other sections may), then \<open>Options.getSetting\<close>
  returns the part of \<open>v\<close> before its first \<open>=\<close> (all of \<open>v\<close> when it has none), trimmed
  and with null characters removed.
\<close>

theorem getSetting_returns_second_field:
  assumes cache: "configCache opt (getConfigFile opt (case internal of None \<Rightarrow> False | Some b \<Rightarrow> b))
                    = Some content"
    and lines: "split (CHR 0x0A) content = earlier @ (lead @ k @ gap @ ''='' @ v) # below"
    and ws: "\<forall>c\<in>set (lead @ gap). isWhiteSpace c"
    and k: "trim k = k" "CHR ''='' \<notin> set k" "\<not> startsWith k ''[''"
    and sec: "section_in_force earlier = section"
    and first: "\<forall>i<length earlier. \<not> key_line_in_section section k (take i earlier) (earlier ! i)"
  shows "getSetting opt section k internal
           = Some (removeNulls (trim (takeWhile (\<lambda>c. c \<noteq> CHR ''='') v)))"
proof -
  let ?line = "lead @ k @ gap @ ''='' @ v"
  note kv = key_value_line [OF ws k, of v]
  have "?line \<in> set (split (CHR 0x0A) content)" by (simp add: lines)
  then have "set ?line \<subseteq> set content" by (rule set_split_subset)
  then have eq: "CHR ''='' \<in> set content" by auto
  then have ne: "content \<noteq> []" by auto
  have tr: "trim content \<noteq> []" using trim_not_Nil [OF eq] by simp
  have sec': "section_from [] earlier = section"
    using sec by (simp add: section_in_force_def)
  have first': "\<forall>i<length earlier. \<not> (\<not> is_header (earlier ! i)
        \<and> section_from [] (take i earlier) = section \<and> carries_key k (earlier ! i))"
    using first by (simp add: key_line_in_section_def section_in_force_def)
  have "getSetting opt section k internal = getSetting_lines section k [] (split (CHR 0x0A) content)"
    using cache ne tr by (simp add: getSetting_def)
  also have "\<dots> = getSetting_lines section k [] (earlier @ ?line # below)"
    by (simp only: lines)
  also have "\<dots> = Some (removeNulls (trim (second_field ?line)))"
    by (rule getSetting_lines_first_key_line [OF kv(3) kv(1) sec' first'])
  finally show ?thesis by (simp only: kv(2))
qed

text \<open>
  The key stands in \<open>[other]\<close> too, and \<open>debug = false\<close> stands between \<open>[Settings]\<close> and
  the key line: the result is \<open>ab\<close>, from the line \<open>api_key= a\0b=c\<close> of \<open>[Settings]\<close>.
\<close>

theorem getSetting_returns_second_field_witness:
  "getSetting (options_with content_sections) ''settings'' ''api_key'' None = Some ''ab''"
proof -
  let ?earlier = "[''[other]'', ''api_key = X'', '' [Settings] '', ''debug = false'']"
  have cache: "configCache (options_with content_sections)
                 (getConfigFile (options_with content_sections)
                    (case None of None \<Rightarrow> False | Some b \<Rightarrow> b))
                 = Some content_sections"
    by (simp add: options_with_def getConfigFile_def)
  have lines: "split (CHR 0x0A) content_sections
      = ?earlier @ (''  '' @ ''api_key'' @ '''' @ ''='' @ ('' a'' @ [CHR 0x00] @ ''b=c '')) # [[]]"
    by code_simp
  have ws: "\<forall>c\<in>set (''  '' @ ''''). isWhiteSpace c" by code_simp
  have k: "trim ''api_key'' = ''api_key''" "CHR ''='' \<notin> set ''api_key''"
    "\<not> startsWith ''api_key'' ''[''"
    by code_simp+
  have sec: "section_in_force ?earlier = ''settings''" by code_simp
  have each:
    "\<not> key_line_in_section ''settings'' ''api_key'' (take 0 ?earlier) (?earlier ! 0)"
    "\<not> key_line_in_section ''settings'' ''api_key'' (take 1 ?earlier) (?earlier ! 1)"
    "\<not> key_line_in_section ''settings'' ''api_key'' (take 2 ?earlier) (?earlier ! 2)"
    "\<not> key_line_in_section ''settings'' ''api_key'' (take 3 ?earlier) (?earlier ! 3)"
    by code_simp+
  have first: "\<forall>i<length ?earlier.
          \<not> key_line_in_section ''settings'' ''api_key'' (take i ?earlier) (?earlier ! i)"
  proof (intro allI impI)
    fix i assume "i < length ?earlier"
    then have "i = 0 \<or> i = 1 \<or> i = 2 \<or> i = 3" by auto
    with each
    show "\<not> key_line_in_section ''settings'' ''api_key'' (take i ?earlier) (?earlier ! i)"
      by blast
  qed
  have "removeNulls (trim (takeWhile (\<lambda>c. c \<noteq> CHR ''='') ('' a'' @ [CHR 0x00] @ ''b=c '')))
          = ''ab''"
    by code_simp
  with getSetting_returns_second_field [OF cache lines ws k sec first] show ?thesis by simp
qed

text \<open>
  The claim as stated fails on a value that contains \<open>=\<close>: for \<open>api_key = a=b\<close> the
  remainder after the first \<open>=\<close> is \<open>a=b\<close>, and the code returns \<open>a\<close>.
\<close>

theorem getSetting_value_with_equals_counterexample:
  "getSetting (options_with content_equals) ''settings'' ''api_key'' None = Some ''a''
   \<and> getSetting (options_with content_equals) ''settings'' ''api_key'' None \<noteq> Some ''a=b''"
  by code_simp

section \<open>The dispatcher\<close>

subsection \<open>The locator leaves no invocation and no attempt in the trace\<close>

lemmas prims = adapter_exists_def adapter_readFile_def adapter_exec_def now_def logger_def setLevel_def

lemma getCliLocation_shift:
  "getCliLocation rt ad d s =
     (case getCliLocation rt ad d (fst s, []) of
        (c, d1, s1) \<Rightarrow> (c, d1, (fst s1, snd s @ snd s1)))"
  by (simp add: getCliLocation_def prims Let_def split: prod.splits)

lemma getCliLocation_quiet:
  "getCliLocation rt ad d (w, []) = (c, d1, s1) \<Longrightarrow>
     filter isExec (snd s1) = [] \<and> filter isSending (snd s1) = []"
  by (auto simp: getCliLocation_def prims Let_def split: if_splits prod.splits option.splits)

lemma getCliLocation_trace:
  assumes "getCliLocation rt ad d s = (c, d1, s1)"
  shows "filter isExec (snd s1) = filter isExec (snd s)
         \<and> filter isSending (snd s1) = filter isSending (snd s)
         \<and> filter (\<lambda>e. \<not> isSending e) (snd s1)
             = filter (\<lambda>e. \<not> isSending e) (snd s) @ snd (snd (snd (getCliLocation rt ad d (fst s, []))))"
proof -
  obtain c0 d0 s0 where base: "getCliLocation rt ad d (fst s, []) = (c0, d0, s0)"
    by (cases "getCliLocation rt ad d (fst s, [])") auto
  have s1: "snd s1 = snd s @ snd s0"
    using getCliLocation_shift [of rt ad d s] assms base by auto
  have q: "filter isExec (snd s0) = []" "filter isSending (snd s0) = []"
    using getCliLocation_quiet [OF base] by simp_all
  from q(2) have "filter (\<lambda>e. \<not> isSending e) (snd s0) = snd s0"
    by (simp add: filter_empty_conv filter_id_conv)
  with s1 q base show ?thesis by simp
qed

subsection \<open>One heartbeat, and the loop over the pending map\<close>

lemma sendSingleHeartbeat_sending:
  "wired t \<Longrightarrow> sendSingleHeartbeat rt ad entity n t s = (r, t1, s1) \<Longrightarrow>
     r = Inr () \<and> wired t1 \<and> apiKey t1 = apiKey t \<and> fileEntities t1 = fileEntities t
     \<and> lastHeartbeatAt t1 = lastHeartbeatAt t \<and> workingDirectory t1 = workingDirectory t
     \<and> filter isSending (snd s1) = filter isSending (snd s) @ [Log DEBUG (Sending entity n)]
     \<and> length (filter isExec (snd s1)) \<le> Suc (length (filter isExec (snd s)))"
  apply (simp add: sendSingleHeartbeat_def Let_def wired_def split: if_splits option.splits prod.splits)
   apply (auto simp: prims Let_def dest!: getCliLocation_trace split: sum.splits if_splits prod.splits)
  done

lemma sendHeartbeats_loop_sending:
  "wired t \<Longrightarrow> sendHeartbeats_loop rt ad es t s = (r, t1, s1) \<Longrightarrow>
     r = Inr () \<and> wired t1 \<and> apiKey t1 = apiKey t \<and> fileEntities t1 = fileEntities t
     \<and> lastHeartbeatAt t1 = lastHeartbeatAt t \<and> workingDirectory t1 = workingDirectory t
     \<and> filter isSending (snd s1)
         = filter isSending (snd s) @ map (\<lambda>(p, n). Log DEBUG (Sending p n)) es
     \<and> length (filter isExec (snd s1)) \<le> length (filter isExec (snd s)) + length es"
proof (induction es arbitrary: t s)
  case Nil
  then show ?case by simp
next
  case (Cons pn es)
  obtain p n where pn: "pn = (p, n)" by (cases pn)
  obtain r0 t0 s0 where step: "sendSingleHeartbeat rt ad p n t s = (r0, t0, s0)"
    by (cases "sendSingleHeartbeat rt ad p n t s") auto
  note one = sendSingleHeartbeat_sending [OF Cons.prems(1) step]
  from Cons.prems(2) have rest: "sendHeartbeats_loop rt ad es t0 s0 = (r, t1, s1)"
    using one by (simp add: pn step)
  from Cons.IH [OF _ rest] one show ?case by (simp add: pn)
qed

text \<open>With the key configured and the cached CLI present, every attempt runs the CLI.\<close>

lemma sendSingleHeartbeat_exec:
  assumes "apiKey t = Some k" "k \<noteq> []" "dependencies t = Some d" "cliLocation d = Some cli"
    "cli \<noteq> []" "\<forall>w. fst (exists ad (JStr cli) w)"
    and "sendSingleHeartbeat rt ad entity n t s = (r, t1, s1)"
  shows "t1 = t \<and> map exec_entity (filter isExec (snd s1))
                   = map exec_entity (filter isExec (snd s)) @ [Some entity]"
proof -
  have g: "getCliLocation rt ad d s0 = (cli, d, s0)" for s0
    using assms(4,5) by (simp add: getCliLocation_def)
  have t: "t\<lparr>dependencies := Some d\<rparr> = t" using assms(3) by simp
  obtain w' where ex: "exists ad (JStr cli) (fst s) = (True, w')"
    using assms(6) by (cases "exists ad (JStr cli) (fst s)") (metis fst_conv)
  obtain ms w2 where dn: "Date_now rt w' = (ms, w2)" by (cases "Date_now rt w'")
  obtain res w3 where run:
    "exec ad cli [''--entity'', entity, ''--time'', String_of rt (of_int ms / 1000), ''--write'']
       (Some [(''WAKATIME_API_KEY'', k)]) w2 = (res, w3)"
    by (cases "exec ad cli [''--entity'', entity, ''--time'', String_of rt (of_int ms / 1000), ''--write'']
       (Some [(''WAKATIME_API_KEY'', k)]) w2")
  show ?thesis
  proof (cases res)
    case (Inl e)
    with assms(1,2,3,5,7) g t ex dn run show ?thesis
      by (auto simp: sendSingleHeartbeat_def Let_def prims)
  next
    case (Inr out)
    obtain so se where out: "out = (so, se)" by (cases out)
    with Inr assms(1,2,3,5,7) g t ex dn run show ?thesis
      by (auto simp: sendSingleHeartbeat_def Let_def prims)
  qed
qed

lemma sendHeartbeats_loop_exec:
  assumes "apiKey t = Some k" "k \<noteq> []" "dependencies t = Some d" "cliLocation d = Some cli"
    "cli \<noteq> []" "\<forall>w. fst (exists ad (JStr cli) w)"
  shows "sendHeartbeats_loop rt ad es t s = (r, t1, s1) \<Longrightarrow>
         t1 = t \<and> map exec_entity (filter isExec (snd s1))
                   = map exec_entity (filter isExec (snd s)) @ map (\<lambda>pn. Some (fst pn)) es"
proof (induction es arbitrary: s)
  case Nil
  then show ?case by simp
next
  case (Cons pn es)
  obtain p n where pn: "pn = (p, n)" by (cases pn)
  obtain r0 t0 s0 where step: "sendSingleHeartbeat rt ad p n t s = (r0, t0, s0)"
    by (cases "sendSingleHeartbeat rt ad p n t s") auto
  note one = sendSingleHeartbeat_exec [OF assms step]
  have w: "wired t" using assms(3) by (simp add: wired_def)
  have r0: "r0 = Inr ()" using sendSingleHeartbeat_sending [OF w step] by simp
  from Cons.prems have rest: "sendHeartbeats_loop rt ad es t s0 = (r, t1, s1)"
    using one r0 by (simp add: pn step)
  from Cons.IH [OF rest] one show ?case by (simp add: pn)
qed

subsection \<open>The change count reaches nothing but the debug line\<close>

lemma sendSingleHeartbeat_rel:
  assumes "fst s = fst s'"
    and "filter (\<lambda>e. \<not> isSending e) (snd s) = filter (\<lambda>e. \<not> isSending e) (snd s')"
    and "sendSingleHeartbeat rt ad entity n t s = (r, t1, s1)"
    and "sendSingleHeartbeat rt ad entity n' t s' = (r', t1', s1')"
  shows "r = r' \<and> t1 = t1' \<and> fst s1 = fst s1'
         \<and> filter (\<lambda>e. \<not> isSending e) (snd s1) = filter (\<lambda>e. \<not> isSending e) (snd s1')"
proof (cases "truthy_str (apiKey t)")
  case False
  with assms show ?thesis
    by (auto simp: sendSingleHeartbeat_def Let_def logger_def)
next
  case key: True
  show ?thesis
  proof (cases "dependencies t")
    case None
    with key assms show ?thesis
      by (auto simp: sendSingleHeartbeat_def Let_def logger_def)
  next
    case (Some d)
    let ?s0 = "logger DEBUG (Sending entity n) s"
    let ?s0' = "logger DEBUG (Sending entity n') s'"
    obtain c0 d0 u0 where base: "getCliLocation rt ad d (fst s, []) = (c0, d0, u0)"
      by (cases "getCliLocation rt ad d (fst s, [])") auto
    have g: "getCliLocation rt ad d ?s0 = (c0, d0, (fst u0, snd ?s0 @ snd u0))"
      using getCliLocation_shift [of rt ad d ?s0] base by (simp add: logger_def)
    have g': "getCliLocation rt ad d ?s0' = (c0, d0, (fst u0, snd ?s0' @ snd u0))"
      using getCliLocation_shift [of rt ad d ?s0'] base assms(1) by (simp add: logger_def)
    have q: "filter (\<lambda>e. \<not> isSending e) (snd ?s0 @ snd u0)
               = filter (\<lambda>e. \<not> isSending e) (snd ?s0' @ snd u0)"
      using assms(2) by (simp add: logger_def)
    show ?thesis
      using assms(3,4) key Some g g' q
      by (auto simp: sendSingleHeartbeat_def Let_def prims split: if_splits prod.splits sum.splits option.splits)
  qed
qed

lemma sendHeartbeats_loop_rel:
  "map fst es = map fst es' \<Longrightarrow> fst s = fst s'
   \<Longrightarrow> filter (\<lambda>e. \<not> isSending e) (snd s) = filter (\<lambda>e. \<not> isSending e) (snd s')
   \<Longrightarrow> sendHeartbeats_loop rt ad es t s = (r, t1, s1)
   \<Longrightarrow> sendHeartbeats_loop rt ad es' t s' = (r', t1', s1')
   \<Longrightarrow> r = r' \<and> t1 = t1' \<and> fst s1 = fst s1'
       \<and> filter (\<lambda>e. \<not> isSending e) (snd s1) = filter (\<lambda>e. \<not> isSending e) (snd s1')"
proof (induction es arbitrary: es' t s s')
  case Nil
  then show ?case by simp
next
  case (Cons pn es)
  obtain p n where pn: "pn = (p, n)" by (cases pn)
  from Cons.prems(1) obtain n' es0 where es': "es' = (p, n') # es0" and keys: "map fst es = map fst es0"
    by (cases es') (auto simp: pn)
  obtain r0 t0 s0 where step: "sendSingleHeartbeat rt ad p n t s = (r0, t0, s0)"
    by (cases "sendSingleHeartbeat rt ad p n t s") auto
  obtain r0' t0' s0' where step': "sendSingleHeartbeat rt ad p n' t s' = (r0', t0', s0')"
    by (cases "sendSingleHeartbeat rt ad p n' t s'") auto
  note one = sendSingleHeartbeat_rel [OF Cons.prems(2,3) step step']
  from one have eqs: "r0' = r0" "t0' = t0" by simp_all
  show ?case
  proof (cases r0)
    case (Inl e)
    with Cons.prems(4) have a: "r = r0" "t1 = t0" "s1 = s0"
      by (simp_all add: pn step)
    from Inl Cons.prems(5) have b: "r' = r0" "t1' = t0" "s1' = s0'"
      by (simp_all add: es' step' eqs)
    from one show ?thesis by (simp add: a b)
  next
    case (Inr u)
    with Cons.prems(4,5)
    have a: "sendHeartbeats_loop rt ad es t0 s0 = (r, t1, s1)"
      and b: "sendHeartbeats_loop rt ad es0 t0 s0' = (r', t1', s1')"
      by (simp_all add: pn es' step step' eqs)
    from one have c: "fst s0 = fst s0'"
      "filter (\<lambda>e. \<not> isSending e) (snd s0) = filter (\<lambda>e. \<not> isSending e) (snd s0')"
      by simp_all
    from Cons.IH [OF keys c a b] show ?thesis .
  qed
qed

lemma sendSingleHeartbeat_fileEntities:
  "sendSingleHeartbeat rt ad entity n (t\<lparr>fileEntities := x\<rparr>) s =
     (case sendSingleHeartbeat rt ad entity n t s of
        (r, t1, s1) \<Rightarrow> (r, t1\<lparr>fileEntities := x\<rparr>, s1))"
  by (simp add: sendSingleHeartbeat_def Let_def split: option.splits prod.splits sum.splits)

lemma sendHeartbeats_loop_fileEntities:
  "sendHeartbeats_loop rt ad es (t\<lparr>fileEntities := x\<rparr>) s =
     (case sendHeartbeats_loop rt ad es t s of
        (r, t1, s1) \<Rightarrow> (r, t1\<lparr>fileEntities := x\<rparr>, s1))"
proof (induction es arbitrary: t s)
  case Nil
  show ?case by simp
next
  case (Cons pn es)
  obtain p n where pn: "pn = (p, n)" by (cases pn)
  show ?case
    by (simp add: pn sendSingleHeartbeat_fileEntities Cons.IH split: prod.splits sum.splits)
qed

lemma filter_isExec_strip:
  "filter isExec (filter (\<lambda>e. \<not> isSending e) tr) = filter isExec tr"
proof -
  have "isExec e \<Longrightarrow> \<not> isSending e" for e by (cases e) auto
  then show ?thesis by (auto simp: filter_filter intro: filter_cong)
qed

subsection \<open>A flush\<close>

lemma sendHeartbeat_result:
  assumes "wired t" and "sendHeartbeats_loop rt ad (fileEntities t) t s = (r, t1, s1)"
  shows "sendHeartbeat rt ad t s
           = (Inr (), t1\<lparr>fileEntities := [], lastHeartbeatAt := fst (now rt s1)\<rparr>, snd (now rt s1))"
  using sendHeartbeats_loop_sending [OF assms] assms(2)
  by (simp add: sendHeartbeat_def sendHeartbeats_def clearEntities_def split: prod.splits)

lemma now_trace: "snd (snd (now rt s)) = snd s"
  by (simp add: now_def split: prod.splits)

text \<open>
  C2. One flush (\<open>sendHeartbeat\<close>: \<open>sendHeartbeats\<close>, then \<open>clearEntities\<close>) of a tracker
  with \<open>N\<close> pending paths returns normally, leaves the pending map empty, and makes
  exactly \<open>N\<close> attempts, one per pending path in map order (the \<open>Sending\<close> events). Each
  attempt runs the CLI at most once, so at most \<open>N\<close> invocations happen; when the API key
  is configured and the cached CLI location passes its existence check, exactly one
  invocation per pending path happens, in map order, whatever each invocation returns.
\<close>

theorem sendHeartbeat_attempts_every_entity_and_clears:
  assumes "wired t"
  shows "fst (sendHeartbeat rt ad t s) = Inr ()
    \<and> fileEntities (fst (snd (sendHeartbeat rt ad t s))) = []
    \<and> filter isSending (snd (snd (snd (sendHeartbeat rt ad t s))))
        = filter isSending (snd s) @ map (\<lambda>(p, n). Log DEBUG (Sending p n)) (fileEntities t)
    \<and> length (filter isExec (snd (snd (snd (sendHeartbeat rt ad t s)))))
        \<le> length (filter isExec (snd s)) + length (fileEntities t)
    \<and> ((\<exists>k d cli. apiKey t = Some k \<and> k \<noteq> [] \<and> dependencies t = Some d
            \<and> cliLocation d = Some cli \<and> cli \<noteq> [] \<and> (\<forall>w. fst (exists ad (JStr cli) w)))
        \<longrightarrow> map exec_entity (filter isExec (snd (snd (snd (sendHeartbeat rt ad t s)))))
             = map exec_entity (filter isExec (snd s)) @ map (\<lambda>pn. Some (fst pn)) (fileEntities t))"
proof -
  obtain r t1 s1 where loop: "sendHeartbeats_loop rt ad (fileEntities t) t s = (r, t1, s1)"
    by (cases "sendHeartbeats_loop rt ad (fileEntities t) t s") auto
  note res = sendHeartbeat_result [OF assms loop]
  note snd = sendHeartbeats_loop_sending [OF assms loop]
  have exact: "map exec_entity (filter isExec (snd s1))
             = map exec_entity (filter isExec (snd s)) @ map (\<lambda>pn. Some (fst pn)) (fileEntities t)"
    if "apiKey t = Some k" "k \<noteq> []" "dependencies t = Some d" "cliLocation d = Some cli"
       "cli \<noteq> []" "\<forall>w. fst (exists ad (JStr cli) w)" for k d cli
    using sendHeartbeats_loop_exec [OF that loop] by simp
  show ?thesis
    using snd exact by (auto simp: res now_trace)
qed

text \<open>Two pending files, a configured key and an installed CLI: two invocations, map empty.\<close>

theorem sendHeartbeat_attempts_every_entity_and_clears_witness:
  "wired tracker_pending
   \<and> fst (sendHeartbeat (rt_at 100000) (ad_static present0) tracker_pending ((), [])) = Inr ()
   \<and> fileEntities (fst (snd (sendHeartbeat (rt_at 100000) (ad_static present0)
          tracker_pending ((), [])))) = []
   \<and> filter isSending (snd (snd (snd (sendHeartbeat (rt_at 100000) (ad_static present0)
          tracker_pending ((), [])))))
       = [Log DEBUG (Sending ''/w/a.txt'' 3), Log DEBUG (Sending ''/w/b.txt'' 1)]
   \<and> map exec_entity (filter isExec (snd (snd (snd (sendHeartbeat (rt_at 100000)
          (ad_static present0) tracker_pending ((), []))))))
       = [Some ''/w/a.txt'', Some ''/w/b.txt'']"
proof -
  have w: "wired tracker_pending" by (simp add: wired_def tracker_pending_def)
  have h: "\<exists>k d cli. apiKey tracker_pending = Some k \<and> k \<noteq> [] \<and> dependencies tracker_pending = Some d
            \<and> cliLocation d = Some cli \<and> cli \<noteq> []
            \<and> (\<forall>w. fst (exists (ad_static present0) (JStr cli) (w::unit)))"
    by (simp add: tracker_pending_def deps_found_def ad_static_def present0_def)
  show ?thesis
    using w h sendHeartbeat_attempts_every_entity_and_clears
                [OF w, of "rt_at 100000" "ad_static present0" "((), [])"]
    by (simp add: tracker_pending_def)
qed

lemma sendHeartbeats_loop_bundled_keys:
  "map fst es = map fst es' \<Longrightarrow>
     sendHeartbeats_loop_bundled rt ad es t s = sendHeartbeats_loop_bundled rt ad es' t s"
proof (induction es arbitrary: es' t s)
  case Nil
  then show ?case by simp
next
  case (Cons pn es)
  obtain p n where pn: "pn = (p, n)" by (cases pn)
  from Cons.prems obtain n' es0 where es': "es' = (p, n') # es0" and keys: "map fst es = map fst es0"
    by (cases es') (auto simp: pn)
  have one: "sendSingleHeartbeat_bundled rt ad p n t s = sendSingleHeartbeat_bundled rt ad p n' t s"
    by (simp add: sendSingleHeartbeat_bundled_def)
  show ?case
    by (simp add: pn es' one Cons.IH [OF keys] split: prod.splits sum.splits)
qed

lemma sendSingleHeartbeat_bundled_fileEntities:
  "sendSingleHeartbeat_bundled rt ad entity n (t\<lparr>fileEntities := x\<rparr>) s =
     (case sendSingleHeartbeat_bundled rt ad entity n t s of
        (r, t1, s1) \<Rightarrow> (r, t1\<lparr>fileEntities := x\<rparr>, s1))"
  by (simp add: sendSingleHeartbeat_bundled_def Let_def split: option.splits prod.splits sum.splits)

lemma sendHeartbeats_loop_bundled_fileEntities:
  "sendHeartbeats_loop_bundled rt ad es (t\<lparr>fileEntities := x\<rparr>) s =
     (case sendHeartbeats_loop_bundled rt ad es t s of
        (r, t1, s1) \<Rightarrow> (r, t1\<lparr>fileEntities := x\<rparr>, s1))"
proof (induction es arbitrary: t s)
  case Nil
  show ?case by simp
next
  case (Cons pn es)
  obtain p n where pn: "pn = (p, n)" by (cases pn)
  show ?case
    by (simp add: pn sendSingleHeartbeat_bundled_fileEntities Cons.IH split: prod.splits sum.splits)
qed

text \<open>
  C8. Two trackers that differ only in the change counts stored for the same pending
  paths (same paths in the same map order) perform the same sequence of CLI invocations
  in a flush: same command, arguments and environment for each. The outside is left in
  the same state, and the flush returns the same result. In the bundled plugin the count
  is not even read, and the whole trace is the same.
\<close>

theorem flush_invocations_independent_of_counts:
  assumes "map fst es1 = map fst es2"
  shows "filter isExec (snd (snd (snd (sendHeartbeat rt ad (t\<lparr>fileEntities := es1\<rparr>) s))))
           = filter isExec (snd (snd (snd (sendHeartbeat rt ad (t\<lparr>fileEntities := es2\<rparr>) s))))
    \<and> fst (snd (snd (sendHeartbeat rt ad (t\<lparr>fileEntities := es1\<rparr>) s)))
           = fst (snd (snd (sendHeartbeat rt ad (t\<lparr>fileEntities := es2\<rparr>) s)))
    \<and> fst (sendHeartbeat rt ad (t\<lparr>fileEntities := es1\<rparr>) s)
           = fst (sendHeartbeat rt ad (t\<lparr>fileEntities := es2\<rparr>) s)
    \<and> snd (snd (sendHeartbeat_bundled rt ad (t\<lparr>fileEntities := es1\<rparr>) s))
           = snd (snd (sendHeartbeat_bundled rt ad (t\<lparr>fileEntities := es2\<rparr>) s))"
proof -
  obtain r t1 s1 where a: "sendHeartbeats_loop rt ad es1 t s = (r, t1, s1)"
    by (cases "sendHeartbeats_loop rt ad es1 t s") auto
  obtain r' t1' s1' where b: "sendHeartbeats_loop rt ad es2 t s = (r', t1', s1')"
    by (cases "sendHeartbeats_loop rt ad es2 t s") auto
  note rel = sendHeartbeats_loop_rel [OF assms refl refl a b]
  then have eqs: "r' = r" "t1' = t1" "fst s1' = fst s1" by simp_all
  from rel have "filter isExec (filter (\<lambda>e. \<not> isSending e) (snd s1))
                   = filter isExec (filter (\<lambda>e. \<not> isSending e) (snd s1'))"
    by simp
  then have ex: "filter isExec (snd s1) = filter isExec (snd s1')"
    by (simp only: filter_isExec_strip)
  obtain ms w where clock: "Date_now rt (fst s1) = (ms, w)" by (cases "Date_now rt (fst s1)")
  have n1: "now rt s1 = (of_int ms / 1000, (w, snd s1))"
    using clock by (simp add: now_def)
  have n2: "now rt s1' = (of_int ms / 1000, (w, snd s1'))"
    using clock eqs(3) by (simp add: now_def)
  have modular:
    "filter isExec (snd (snd (snd (sendHeartbeat rt ad (t\<lparr>fileEntities := es1\<rparr>) s))))
       = filter isExec (snd (snd (snd (sendHeartbeat rt ad (t\<lparr>fileEntities := es2\<rparr>) s))))
     \<and> fst (snd (snd (sendHeartbeat rt ad (t\<lparr>fileEntities := es1\<rparr>) s)))
       = fst (snd (snd (sendHeartbeat rt ad (t\<lparr>fileEntities := es2\<rparr>) s)))
     \<and> fst (sendHeartbeat rt ad (t\<lparr>fileEntities := es1\<rparr>) s)
       = fst (sendHeartbeat rt ad (t\<lparr>fileEntities := es2\<rparr>) s)"
    using ex eqs
    by (cases r)
       (simp_all add: sendHeartbeat_def sendHeartbeats_def sendHeartbeats_loop_fileEntities
          a b clearEntities_def n1 n2)
  have loopb: "sendHeartbeats_loop_bundled rt ad es1 t s = sendHeartbeats_loop_bundled rt ad es2 t s"
    by (rule sendHeartbeats_loop_bundled_keys [OF assms])
  have bundled:
    "snd (snd (sendHeartbeat_bundled rt ad (t\<lparr>fileEntities := es1\<rparr>) s))
       = snd (snd (sendHeartbeat_bundled rt ad (t\<lparr>fileEntities := es2\<rparr>) s))"
    by (simp add: sendHeartbeat_bundled_def sendHeartbeats_bundled_def
          sendHeartbeats_loop_bundled_fileEntities loopb split: prod.splits sum.splits)
  from modular bundled show ?thesis by simp
qed

text \<open>Counts 3 and 1 against counts 40 and 7: the same two invocations.\<close>

theorem flush_invocations_independent_of_counts_witness:
  "map fst [(''/w/a.txt'', 3 :: int), (''/w/b.txt'', 1)] = map fst [(''/w/a.txt'', 40 :: int), (''/w/b.txt'', 7)]
   \<and> filter isExec (snd (snd (snd (sendHeartbeat (rt_at 100000) (ad_static present0)
         (tracker_pending\<lparr>fileEntities := [(''/w/a.txt'', 40), (''/w/b.txt'', 7)]\<rparr>) ((), [])))))
     = [Exec ''/home/u/.wakatime/wakatime-cli'' [''--entity'', ''/w/a.txt'', ''--time'', ''T'', ''--write'']
          (Some [(''WAKATIME_API_KEY'', ''K'')]),
        Exec ''/home/u/.wakatime/wakatime-cli'' [''--entity'', ''/w/b.txt'', ''--time'', ''T'', ''--write'']
          (Some [(''WAKATIME_API_KEY'', ''K'')])]"
proof -
  have k: "map fst [(''/w/a.txt'', 3 :: int), (''/w/b.txt'', 1)]
             = map fst [(''/w/a.txt'', 40 :: int), (''/w/b.txt'', 7)]"
    by simp
  have e: "filter isExec (snd (snd (snd (sendHeartbeat (rt_at 100000) (ad_static present0)
         (tracker_pending\<lparr>fileEntities := [(''/w/a.txt'', 3), (''/w/b.txt'', 1)]\<rparr>) ((), [])))))
     = [Exec ''/home/u/.wakatime/wakatime-cli'' [''--entity'', ''/w/a.txt'', ''--time'', ''T'', ''--write'']
          (Some [(''WAKATIME_API_KEY'', ''K'')]),
        Exec ''/home/u/.wakatime/wakatime-cli'' [''--entity'', ''/w/b.txt'', ''--time'', ''T'', ''--write'']
          (Some [(''WAKATIME_API_KEY'', ''K'')])]"
    by code_simp
  from flush_invocations_independent_of_counts
         [OF k, of "rt_at 100000" "ad_static present0" tracker_pending "((), [])"] e k
  show ?thesis by simp
qed

subsection \<open>A path that does not exist\<close>

text \<open>
  C7. When the adapter's existence check for the path answers no, \<open>trackFileEdit\<close> returns
  the tracker as it was (pending map and last-flush timestamp included), and the only
  effect is the existence check itself: no file is read and no process is executed.
\<close>

theorem trackFileEdit_missing_path_is_noop:
  assumes "\<not> fst (exists ad filePath (fst s))"
  shows "trackFileEdit rt ad filePath operation lineChanges t s
           = (t, (snd (exists ad filePath (fst s)), snd s @ [Exists filePath]))"
proof -
  obtain b w where e: "exists ad filePath (fst s) = (b, w)" by (cases "exists ad filePath (fst s)")
  with assms have "\<not> b" by simp
  with e show ?thesis
    by (simp add: trackFileEdit_def isValidFilePath_def adapter_exists_def)
qed

theorem trackFileEdit_missing_path_is_noop_witness:
  "\<not> fst (exists (ad_static present0) (JStr ''gone.txt'') ())
   \<and> trackFileEdit (rt_at 100000) (ad_static present0) (JStr ''gone.txt'') ''write'' 5
        tracker_pending ((), [])
      = (tracker_pending, ((), [Exists (JStr ''gone.txt'')]))"
proof -
  have h: "\<not> fst (exists (ad_static present0) (JStr ''gone.txt'') (fst ((), [])))"
    by (simp add: ad_static_def present0_def)
  from trackFileEdit_missing_path_is_noop [OF h, of "rt_at 100000" "''write''" 5 tracker_pending] h
  show ?thesis by (simp add: ad_static_def)
qed

subsection \<open>The time trigger\<close>

lemma trackFileEdit_unfold:
  assumes "exists ad (JStr fp) (fst s) = (True, w1)"
  shows "trackFileEdit rt ad (JStr fp) operation lineChanges t s =
     (case accumulate ad (if path_isAbsolute rt fp then fp else path_join rt (workingDirectory t) fp)
             operation lineChanges t (w1, snd s @ [Exists (JStr fp)]) of
        (t2, s2) \<Rightarrow>
          (case shouldSendHeartbeat rt t2 s2 of (due, s3) \<Rightarrow>
             if due then
               (case sendHeartbeats rt ad t2 s3 of
                  (Inr u, t4, s4) \<Rightarrow> clearEntities rt t4 s4
                | (Inl e, t4, s4) \<Rightarrow> (t4, logger ERROR (TrackError e) s4))
             else (t2, s3)))"
  using assms
  by (simp add: trackFileEdit_def accumulate_def isValidFilePath_def adapter_exists_def Let_def)

lemma calculateLineChanges_eq:
  "calculateLineChanges ad p s =
     ((case fst (readFile ad p (fst s)) of
         Inr content \<Rightarrow> 1 + int (length (filter (\<lambda>c. c = CHR 0x0A) content))
       | Inl e \<Rightarrow> 0),
      (snd (readFile ad p (fst s)), snd s @ [ReadFile p]))"
  by (simp add: calculateLineChanges_def adapter_readFile_def length_split
        split: prod.splits sum.splits)

lemma accumulate_props:
  assumes "accumulate ad fullPath operation lineChanges t s1 = (t2, s2)"
  shows "lastHeartbeatAt t2 = lastHeartbeatAt t \<and> wired t2 = wired t"
    and "filter isExec (snd s2) = filter isExec (snd s1)"
    and "filter isSending (snd s2) = filter isSending (snd s1)"
    and "operation \<noteq> ''write'' \<and> operation \<noteq> ''edit'' \<Longrightarrow> t2 = t"
    and "operation = ''write'' \<or> operation = ''edit'' \<Longrightarrow>
         fileEntities t2 = AList.update fullPath
           ((case map_of (fileEntities t) fullPath of None \<Rightarrow> 0 | Some n \<Rightarrow> n)
            + (if lineChanges \<noteq> 0 then lineChanges
               else (case fst (readFile ad fullPath (fst s1)) of
                       Inr content \<Rightarrow> 1 + int (length (filter (\<lambda>c. c = CHR 0x0A) content))
                     | Inl e \<Rightarrow> 0)))
           (fileEntities t)"
  using assms
  by (auto simp: accumulate_def calculateLineChanges_eq wired_def split: if_splits)

lemma wired_fileEntities: "wired (t\<lparr>fileEntities := x\<rparr>) = wired t"
  by (simp add: wired_def)

lemma now_eq:
  "now rt s = (of_int (fst (Date_now rt (fst s))) / 1000, (snd (Date_now rt (fst s)), snd s))"
  by (simp add: now_def split: prod.splits)

lemma trackFileEdit_due:
  assumes w: "wired t"
    and valid: "exists ad (JStr fp) (fst s) = (True, w1)"
    and acc: "accumulate ad (if path_isAbsolute rt fp then fp else path_join rt (workingDirectory t) fp)
                operation lineChanges t (w1, snd s @ [Exists (JStr fp)]) = (t2, s2)"
    and due: "\<forall>w. of_int (fst (Date_now rt w)) / 1000 - lastHeartbeatAt t \<ge> 60"
  shows "fileEntities (fst (trackFileEdit rt ad (JStr fp) operation lineChanges t s)) = []
    \<and> lastHeartbeatAt (fst (trackFileEdit rt ad (JStr fp) operation lineChanges t s))
         - lastHeartbeatAt t \<ge> 60
    \<and> filter isSending (snd (snd (trackFileEdit rt ad (JStr fp) operation lineChanges t s)))
        = filter isSending (snd s) @ map (\<lambda>(p, n). Log DEBUG (Sending p n)) (fileEntities t2)"
proof -
  note ap = accumulate_props [OF acc]
  have t2: "lastHeartbeatAt t2 = lastHeartbeatAt t" "wired t2"
    using ap(1) w by simp_all
  define s3 where "s3 = (snd (Date_now rt (fst s2)), snd s2)"
  have should: "shouldSendHeartbeat rt t2 s2 = (True, s3)"
    using due t2(1) by (simp add: shouldSendHeartbeat_def now_eq s3_def)
  obtain r t4 s4 where loop: "sendHeartbeats_loop rt ad (fileEntities t2) t2 s3 = (r, t4, s4)"
    by (cases "sendHeartbeats_loop rt ad (fileEntities t2) t2 s3") auto
  note lp = sendHeartbeats_loop_sending [OF t2(2) loop]
  have res: "trackFileEdit rt ad (JStr fp) operation lineChanges t s = clearEntities rt t4 s4"
    using lp by (simp add: trackFileEdit_unfold [OF valid] acc should sendHeartbeats_def loop)
  have sending: "filter isSending (snd s3) = filter isSending (snd s)"
    using ap(3) by (simp add: s3_def)
  show ?thesis
    using lp sending due t2(1) by (simp add: res clearEntities_def now_eq)
qed

lemma trackFileEdit_not_due:
  assumes valid: "exists ad (JStr fp) (fst s) = (True, w1)"
    and acc: "accumulate ad (if path_isAbsolute rt fp then fp else path_join rt (workingDirectory t) fp)
                operation lineChanges t (w1, snd s @ [Exists (JStr fp)]) = (t2, s2)"
    and quiet: "\<forall>w. of_int (fst (Date_now rt w)) / 1000 - lastHeartbeatAt t < 60"
  shows "trackFileEdit rt ad (JStr fp) operation lineChanges t s
           = (t2, (snd (Date_now rt (fst s2)), snd s2))"
proof -
  note ap = accumulate_props [OF acc]
  have t2: "lastHeartbeatAt t2 = lastHeartbeatAt t"
    using ap(1) by simp
  have "\<not> (of_int (fst (Date_now rt (fst s2))) / 1000 - lastHeartbeatAt t \<ge> 60)"
    using quiet by (simp add: not_le)
  then have should: "shouldSendHeartbeat rt t2 s2 = (False, (snd (Date_now rt (fst s2)), snd s2))"
    using t2 by (simp add: shouldSendHeartbeat_def now_eq)
  show ?thesis
    by (simp add: trackFileEdit_unfold [OF valid] acc should)
qed

lemma accumulate_keys:
  assumes "accumulate ad fullPath operation lineChanges t s1 = (t2, s2)"
  shows "set (map fst (fileEntities t)) \<subseteq> set (map fst (fileEntities t2))"
proof (cases "operation = ''write'' \<or> operation = ''edit''")
  case True
  from accumulate_props(5) [OF assms True] show ?thesis
    by (auto simp: dom_update image_iff)
next
  case False
  with accumulate_props(4) [OF assms] show ?thesis by simp
qed

lemma accumulate_tracked:
  assumes "accumulate ad fullPath operation lineChanges t s1 = (t2, s2)"
    and "operation = ''write'' \<or> operation = ''edit''"
  shows "fullPath \<in> set (map fst (fileEntities t2))"
  using accumulate_props(5) [OF assms] by (simp add: dom_update)

lemma sending_in_trace:
  assumes "filter isSending tr = old @ map (\<lambda>(p, n). Log DEBUG (Sending p n)) es"
    and "p \<in> set (map fst es)"
  shows "\<exists>n. Log DEBUG (Sending p n) \<in> set tr"
proof -
  from assms(2) obtain n where "(p, n) \<in> set es" by auto
  then have "Log DEBUG (Sending p n) \<in> set (map (\<lambda>(p, n). Log DEBUG (Sending p n)) es)"
    by force
  then have "Log DEBUG (Sending p n) \<in> set (filter isSending tr)"
    by (simp add: assms(1))
  then show ?thesis by auto
qed

lemma trackFileEdit_trigger:
  assumes w: "wired t"
    and valid: "fst (exists ad (JStr fp) (fst s))"
  shows "((\<forall>w. of_int (fst (Date_now rt w)) / 1000 - lastHeartbeatAt t \<ge> 60) \<longrightarrow>
            fileEntities (fst (trackFileEdit rt ad (JStr fp) operation lineChanges t s)) = []
          \<and> lastHeartbeatAt (fst (trackFileEdit rt ad (JStr fp) operation lineChanges t s))
               - lastHeartbeatAt t \<ge> 60
          \<and> (\<forall>p\<in>set (map fst (fileEntities t)). \<exists>n. Log DEBUG (Sending p n)
                 \<in> set (snd (snd (trackFileEdit rt ad (JStr fp) operation lineChanges t s)))))
     \<and> ((\<forall>w. of_int (fst (Date_now rt w)) / 1000 - lastHeartbeatAt t < 60) \<longrightarrow>
            lastHeartbeatAt (fst (trackFileEdit rt ad (JStr fp) operation lineChanges t s))
               = lastHeartbeatAt t
          \<and> set (map fst (fileEntities t))
               \<subseteq> set (map fst (fileEntities (fst (trackFileEdit rt ad (JStr fp) operation lineChanges t s))))
          \<and> filter isExec (snd (snd (trackFileEdit rt ad (JStr fp) operation lineChanges t s)))
               = filter isExec (snd s)
          \<and> filter isSending (snd (snd (trackFileEdit rt ad (JStr fp) operation lineChanges t s)))
               = filter isSending (snd s)
          \<and> (operation \<noteq> ''write'' \<and> operation \<noteq> ''edit'' \<longrightarrow>
                fst (trackFileEdit rt ad (JStr fp) operation lineChanges t s) = t))"
proof -
  obtain w1 where ex: "exists ad (JStr fp) (fst s) = (True, w1)"
    using valid by (cases "exists ad (JStr fp) (fst s)") auto
  obtain t2 s2 where acc:
    "accumulate ad (if path_isAbsolute rt fp then fp else path_join rt (workingDirectory t) fp)
       operation lineChanges t (w1, snd s @ [Exists (JStr fp)]) = (t2, s2)"
    by (cases "accumulate ad (if path_isAbsolute rt fp then fp else path_join rt (workingDirectory t) fp)
       operation lineChanges t (w1, snd s @ [Exists (JStr fp)])") auto
  note ap = accumulate_props [OF acc]
  note keys = accumulate_keys [OF acc]
  have due: "fileEntities (fst (trackFileEdit rt ad (JStr fp) operation lineChanges t s)) = []
          \<and> lastHeartbeatAt (fst (trackFileEdit rt ad (JStr fp) operation lineChanges t s))
               - lastHeartbeatAt t \<ge> 60
          \<and> (\<forall>p\<in>set (map fst (fileEntities t)). \<exists>n. Log DEBUG (Sending p n)
                 \<in> set (snd (snd (trackFileEdit rt ad (JStr fp) operation lineChanges t s))))"
    if d: "\<forall>w. of_int (fst (Date_now rt w)) / 1000 - lastHeartbeatAt t \<ge> 60"
  proof -
    note td = trackFileEdit_due [OF w ex acc d]
    then have snd: "filter isSending (snd (snd (trackFileEdit rt ad (JStr fp) operation lineChanges t s)))
        = filter isSending (snd s) @ map (\<lambda>(p, n). Log DEBUG (Sending p n)) (fileEntities t2)"
      by simp
    have "\<exists>n. Log DEBUG (Sending p n)
            \<in> set (snd (snd (trackFileEdit rt ad (JStr fp) operation lineChanges t s)))"
      if "p \<in> set (map fst (fileEntities t))" for p
      using sending_in_trace [OF snd] that keys by blast
    with td show ?thesis by blast
  qed
  have quiet: "lastHeartbeatAt (fst (trackFileEdit rt ad (JStr fp) operation lineChanges t s))
               = lastHeartbeatAt t
          \<and> set (map fst (fileEntities t))
               \<subseteq> set (map fst (fileEntities (fst (trackFileEdit rt ad (JStr fp) operation lineChanges t s))))
          \<and> filter isExec (snd (snd (trackFileEdit rt ad (JStr fp) operation lineChanges t s)))
               = filter isExec (snd s)
          \<and> filter isSending (snd (snd (trackFileEdit rt ad (JStr fp) operation lineChanges t s)))
               = filter isSending (snd s)
          \<and> (operation \<noteq> ''write'' \<and> operation \<noteq> ''edit'' \<longrightarrow>
                fst (trackFileEdit rt ad (JStr fp) operation lineChanges t s) = t)"
    if q: "\<forall>w. of_int (fst (Date_now rt w)) / 1000 - lastHeartbeatAt t < 60"
    using trackFileEdit_not_due [OF ex acc q] ap keys by simp
  from due quiet show ?thesis by blast
qed

text \<open>
  C1, as the code has it. The trigger \<open>if (this.shouldSendHeartbeat())\<close> stands after the
  write/edit block, not inside it, so it is evaluated for every operation. For a path
  that passes the existence check and for any operation (\<open>read\<close> included): when the
  clock reads at least 60 seconds past the last flush, \<open>trackFileEdit\<close> performs a flush
  (every pending path is attempted, the pending map is empty afterwards and the
  last-flush timestamp has moved on by at least 60 seconds); when it reads less than 60
  seconds past the last flush, no flush is performed (the timestamp stays, nothing
  leaves the pending map, no heartbeat is attempted and no process is executed), and an
  operation other than \<open>write\<close> and \<open>edit\<close> leaves the tracker as it was. For a path that
  fails the existence check nothing happens at all.
\<close>

theorem trackFileEdit_flushes_when_interval_elapsed:
  assumes w: "wired t"
  shows "(fst (exists ad (JStr fp) (fst s))
          \<and> (\<forall>w. of_int (fst (Date_now rt w)) / 1000 - lastHeartbeatAt t \<ge> 60) \<longrightarrow>
            fileEntities (fst (trackFileEdit rt ad (JStr fp) operation lineChanges t s)) = []
          \<and> lastHeartbeatAt (fst (trackFileEdit rt ad (JStr fp) operation lineChanges t s))
               - lastHeartbeatAt t \<ge> 60
          \<and> (\<forall>p\<in>set (map fst (fileEntities t)). \<exists>n. Log DEBUG (Sending p n)
                 \<in> set (snd (snd (trackFileEdit rt ad (JStr fp) operation lineChanges t s)))))
     \<and> (fst (exists ad (JStr fp) (fst s))
          \<and> (\<forall>w. of_int (fst (Date_now rt w)) / 1000 - lastHeartbeatAt t < 60) \<longrightarrow>
            lastHeartbeatAt (fst (trackFileEdit rt ad (JStr fp) operation lineChanges t s))
               = lastHeartbeatAt t
          \<and> set (map fst (fileEntities t))
               \<subseteq> set (map fst (fileEntities (fst (trackFileEdit rt ad (JStr fp) operation lineChanges t s))))
          \<and> filter isExec (snd (snd (trackFileEdit rt ad (JStr fp) operation lineChanges t s)))
               = filter isExec (snd s)
          \<and> filter isSending (snd (snd (trackFileEdit rt ad (JStr fp) operation lineChanges t s)))
               = filter isSending (snd s)
          \<and> (operation \<noteq> ''write'' \<and> operation \<noteq> ''edit'' \<longrightarrow>
                fst (trackFileEdit rt ad (JStr fp) operation lineChanges t s) = t))
     \<and> (\<not> fst (exists ad (JStr fp) (fst s)) \<longrightarrow>
            trackFileEdit rt ad (JStr fp) operation lineChanges t s
              = (t, (snd (exists ad (JStr fp) (fst s)), snd s @ [Exists (JStr fp)])))"
proof -
  have absent: "trackFileEdit rt ad (JStr fp) operation lineChanges t s
              = (t, (snd (exists ad (JStr fp) (fst s)), snd s @ [Exists (JStr fp)]))"
    if "\<not> fst (exists ad (JStr fp) (fst s))"
    using that
    by (cases "exists ad (JStr fp) (fst s)")
       (simp add: trackFileEdit_def isValidFilePath_def adapter_exists_def)
  from absent trackFileEdit_trigger [OF w, of ad fp s rt operation lineChanges]
  show ?thesis by blast
qed

text \<open>
  A read 100 seconds after the epoch flushes; a read or write at 59.999 seconds does not.
\<close>

theorem trackFileEdit_flushes_when_interval_elapsed_witness:
  "wired tracker_pending
   \<and> fst (exists (ad_static present0) (JStr ''/w/a.txt'') ())
   \<and> fileEntities (fst (trackFileEdit (rt_at 100000) (ad_static present0) (JStr ''/w/a.txt'')
        ''read'' 0 tracker_pending ((), []))) = []
   \<and> lastHeartbeatAt (fst (trackFileEdit (rt_at 100000) (ad_static present0) (JStr ''/w/a.txt'')
        ''read'' 0 tracker_pending ((), []))) \<ge> 60
   \<and> fst (trackFileEdit (rt_at 59999) (ad_static present0) (JStr ''/w/a.txt'')
        ''read'' 0 tracker_pending ((), [])) = tracker_pending
   \<and> filter isExec (snd (snd (trackFileEdit (rt_at 59999) (ad_static present0) (JStr ''/w/a.txt'')
        ''write'' 0 tracker_pending ((), [])))) = []"
proof -
  have w: "wired tracker_pending" by (simp add: wired_def tracker_pending_def)
  have v: "fst (exists (ad_static present0) (JStr ''/w/a.txt'') (fst ((), [])))"
    by (simp add: ad_static_def present0_def)
  have l: "lastHeartbeatAt tracker_pending = 0" by (simp add: tracker_pending_def)
  have d: "\<forall>w::unit. of_int (fst (Date_now (rt_at 100000) w)) / 1000 - lastHeartbeatAt tracker_pending \<ge> 60"
    by (simp add: rt_at_def l)
  have q: "\<forall>w::unit. of_int (fst (Date_now (rt_at 59999) w)) / 1000 - lastHeartbeatAt tracker_pending < 60"
    by (simp add: rt_at_def l)
  from trackFileEdit_flushes_when_interval_elapsed
         [OF w, of "ad_static present0" "''/w/a.txt''" "((), [])" "rt_at 100000" "''read''" 0]
       trackFileEdit_flushes_when_interval_elapsed
         [OF w, of "ad_static present0" "''/w/a.txt''" "((), [])" "rt_at 59999" "''read''" 0]
       trackFileEdit_flushes_when_interval_elapsed
         [OF w, of "ad_static present0" "''/w/a.txt''" "((), [])" "rt_at 59999" "''write''" 0]
       w v d q l
  show ?thesis by simp
qed

text \<open>
  The claim as stated fails on a read: with two files pending and the last flush at 0, a
  \<open>read\<close> event at 100 seconds runs the CLI for both files, clears the map and moves the
  timestamp.
\<close>

theorem trackFileEdit_read_flushes_counterexample:
  "fileEntities tracker_pending = [(''/w/a.txt'', 3), (''/w/b.txt'', 1)]
   \<and> lastHeartbeatAt tracker_pending = 0
   \<and> fileEntities (fst (trackFileEdit (rt_at 100000) (ad_static present0) (JStr ''/w/a.txt'')
        ''read'' 0 tracker_pending ((), []))) = []
   \<and> lastHeartbeatAt (fst (trackFileEdit (rt_at 100000) (ad_static present0) (JStr ''/w/a.txt'')
        ''read'' 0 tracker_pending ((), []))) = 100
   \<and> filter isExec (snd (snd (trackFileEdit (rt_at 100000) (ad_static present0) (JStr ''/w/a.txt'')
        ''read'' 0 tracker_pending ((), []))))
      = [Exec ''/home/u/.wakatime/wakatime-cli'' [''--entity'', ''/w/a.txt'', ''--time'', ''T'', ''--write'']
          (Some [(''WAKATIME_API_KEY'', ''K'')]),
         Exec ''/home/u/.wakatime/wakatime-cli'' [''--entity'', ''/w/b.txt'', ''--time'', ''T'', ''--write'']
          (Some [(''WAKATIME_API_KEY'', ''K'')])]"
  by code_simp

text \<open>
  C9, as the code has it. With the last-flush timestamp at its initial 0, the trigger
  compares the clock itself with 60: the first tracked event on an existing file
  performs a flush at once when the clock reads at least 60 seconds since the epoch
  (any real clock), for every operation; a written or edited file is then attempted in
  that same flush.
\<close>

theorem first_event_flushes_once_clock_reads_60s:
  assumes l: "lastHeartbeatAt t = 0"
    and w: "wired t"
    and valid: "fst (exists ad (JStr fp) (fst s))"
    and clock: "\<forall>w. 60000 \<le> fst (Date_now rt w)"
  shows "fileEntities (fst (trackFileEdit rt ad (JStr fp) operation lineChanges t s)) = []
    \<and> lastHeartbeatAt (fst (trackFileEdit rt ad (JStr fp) operation lineChanges t s)) \<ge> 60
    \<and> (operation = ''write'' \<or> operation = ''edit'' \<longrightarrow>
         (\<exists>n. Log DEBUG (Sending (if path_isAbsolute rt fp then fp
                                    else path_join rt (workingDirectory t) fp) n)
                \<in> set (snd (snd (trackFileEdit rt ad (JStr fp) operation lineChanges t s)))))"
proof -
  obtain w1 where ex: "exists ad (JStr fp) (fst s) = (True, w1)"
    using valid by (cases "exists ad (JStr fp) (fst s)") auto
  obtain t2 s2 where acc:
    "accumulate ad (if path_isAbsolute rt fp then fp else path_join rt (workingDirectory t) fp)
       operation lineChanges t (w1, snd s @ [Exists (JStr fp)]) = (t2, s2)"
    by (cases "accumulate ad (if path_isAbsolute rt fp then fp else path_join rt (workingDirectory t) fp)
       operation lineChanges t (w1, snd s @ [Exists (JStr fp)])") auto
  have d: "\<forall>w. of_int (fst (Date_now rt w)) / 1000 - lastHeartbeatAt t \<ge> 60"
  proof
    fix w
    have "(60000 :: rat) \<le> of_int (fst (Date_now rt w))"
      using clock by (metis of_int_le_iff of_int_numeral)
    then show "of_int (fst (Date_now rt w)) / 1000 - lastHeartbeatAt t \<ge> 60"
      by (simp add: l)
  qed
  note td = trackFileEdit_due [OF w ex acc d]
  then have snd: "filter isSending (snd (snd (trackFileEdit rt ad (JStr fp) operation lineChanges t s)))
        = filter isSending (snd s) @ map (\<lambda>(p, n). Log DEBUG (Sending p n)) (fileEntities t2)"
    by simp
  have tracked: "\<exists>n. Log DEBUG (Sending (if path_isAbsolute rt fp then fp
                                    else path_join rt (workingDirectory t) fp) n)
                \<in> set (snd (snd (trackFileEdit rt ad (JStr fp) operation lineChanges t s)))"
    if "operation = ''write'' \<or> operation = ''edit''"
    using sending_in_trace [OF snd accumulate_tracked [OF acc that]] .
  from td tracked l show ?thesis by simp
qed

text \<open>A fresh tracker, a write to \<open>a.txt\<close>, a clock of today.\<close>

theorem first_event_flushes_once_clock_reads_60s_witness:
  "lastHeartbeatAt tracker_fresh = 0 \<and> wired tracker_fresh
   \<and> fileEntities (fst (trackFileEdit (rt_at 1700000000000) (ad_static (''a.txt'' # present0))
        (JStr ''a.txt'') ''write'' 0 tracker_fresh ((), []))) = []
   \<and> lastHeartbeatAt (fst (trackFileEdit (rt_at 1700000000000) (ad_static (''a.txt'' # present0))
        (JStr ''a.txt'') ''write'' 0 tracker_fresh ((), []))) \<ge> 60
   \<and> (\<exists>n. Log DEBUG (Sending ''/w/a.txt'' n)
         \<in> set (snd (snd (trackFileEdit (rt_at 1700000000000) (ad_static (''a.txt'' # present0))
        (JStr ''a.txt'') ''write'' 0 tracker_fresh ((), [])))))"
proof -
  have l: "lastHeartbeatAt tracker_fresh = 0"
    by (simp add: tracker_fresh_def new_WakaTimeTracker_def)
  have w: "wired tracker_fresh"
    by (simp add: tracker_fresh_def new_WakaTimeTracker_def wired_def)
  have v: "fst (exists (ad_static (''a.txt'' # present0)) (JStr ''a.txt'') (fst ((), [])))"
    by (simp add: ad_static_def)
  have c: "\<forall>w::unit. 60000 \<le> fst (Date_now (rt_at 1700000000000) w)"
    by (simp add: rt_at_def)
  have p: "(if path_isAbsolute (rt_at 1700000000000 :: unit Runtime) ''a.txt'' then ''a.txt''
            else path_join (rt_at 1700000000000 :: unit Runtime) (workingDirectory tracker_fresh) ''a.txt'')
           = ''/w/a.txt''"
    by (simp add: rt_at_def tracker_fresh_def new_WakaTimeTracker_def)
  from first_event_flushes_once_clock_reads_60s [OF l w v c, of "''write''" 0] l w p
  show ?thesis by simp
qed

text \<open>
  The claim says any positive clock value. At 59.999 seconds after the epoch the first
  event of a fresh tracker does not flush: the written file stays pending.
\<close>

theorem first_event_before_60s_counterexample:
  "lastHeartbeatAt tracker_fresh = 0
   \<and> (0 :: int) < 59999
   \<and> fileEntities (fst (trackFileEdit (rt_at 59999) (ad_static (''a.txt'' # present0)) (JStr ''a.txt'')
        ''write'' 0 tracker_fresh ((), []))) = [(''/w/a.txt'', 1)]
   \<and> lastHeartbeatAt (fst (trackFileEdit (rt_at 59999) (ad_static (''a.txt'' # present0)) (JStr ''a.txt'')
        ''write'' 0 tracker_fresh ((), []))) = 0
   \<and> snd (snd (trackFileEdit (rt_at 59999) (ad_static (''a.txt'' # present0)) (JStr ''a.txt'')
        ''write'' 0 tracker_fresh ((), []))) = [Exists (JStr ''a.txt''), ReadFile ''/w/a.txt'']"
  by code_simp

subsection \<open>The accumulated change count\<close>

text \<open>
  C5, as the code has it. \<open>lineChanges || ...\<close> takes the hint whenever it is not zero, a
  negative hint included. For a \<open>write\<close> or \<open>edit\<close> on a path that passes the existence
  check, the count stored for the resolved path grows by the hint when the hint is not
  zero, and otherwise by the number of newline characters of the file plus one (what
  \<open>content.split('\n').length\<close> is), or by 0 when the read is rejected; no other path's
  count changes. The count is read off after the call when no flush is due; a due flush
  drains the map in the same call.
\<close>

theorem trackFileEdit_adds_hint_or_line_count:
  assumes valid: "fst (exists ad (JStr fp) (fst s))"
    and op: "operation = ''write'' \<or> operation = ''edit''"
    and quiet: "\<forall>w. of_int (fst (Date_now rt w)) / 1000 - lastHeartbeatAt t < 60"
    and full: "fullPath = (if path_isAbsolute rt fp then fp
                           else path_join rt (workingDirectory t) fp)"
  shows "map_of (fileEntities (fst (trackFileEdit rt ad (JStr fp) operation lineChanges t s))) fullPath
           = Some ((case map_of (fileEntities t) fullPath of None \<Rightarrow> 0 | Some n \<Rightarrow> n)
               + (if lineChanges \<noteq> 0 then lineChanges
                  else (case fst (readFile ad fullPath (snd (exists ad (JStr fp) (fst s)))) of
                          Inr content \<Rightarrow> 1 + int (length (filter (\<lambda>c. c = CHR 0x0A) content))
                        | Inl e \<Rightarrow> 0)))
    \<and> (\<forall>p. p \<noteq> fullPath \<longrightarrow>
          map_of (fileEntities (fst (trackFileEdit rt ad (JStr fp) operation lineChanges t s))) p
            = map_of (fileEntities t) p)"
proof -
  obtain w1 where ex: "exists ad (JStr fp) (fst s) = (True, w1)"
    using valid by (cases "exists ad (JStr fp) (fst s)") auto
  obtain t2 s2 where acc:
    "accumulate ad (if path_isAbsolute rt fp then fp else path_join rt (workingDirectory t) fp)
       operation lineChanges t (w1, snd s @ [Exists (JStr fp)]) = (t2, s2)"
    by (cases "accumulate ad (if path_isAbsolute rt fp then fp else path_join rt (workingDirectory t) fp)
       operation lineChanges t (w1, snd s @ [Exists (JStr fp)])") auto
  have res: "fst (trackFileEdit rt ad (JStr fp) operation lineChanges t s) = t2"
    using trackFileEdit_not_due [OF ex acc quiet] by simp
  have upd: "fileEntities t2 = AList.update fullPath
           ((case map_of (fileEntities t) fullPath of None \<Rightarrow> 0 | Some n \<Rightarrow> n)
            + (if lineChanges \<noteq> 0 then lineChanges
               else (case fst (readFile ad fullPath w1) of
                       Inr content \<Rightarrow> 1 + int (length (filter (\<lambda>c. c = CHR 0x0A) content))
                     | Inl e \<Rightarrow> 0)))
           (fileEntities t)"
    using accumulate_props(5) [OF acc op] by (simp only: full fst_conv)
  show ?thesis
    by (simp only: res upd update_conv') (simp add: ex)
qed

text \<open>Hint 7 on a count of 3 gives 10; hint 0 on a one-line file gives 4.\<close>

theorem trackFileEdit_adds_hint_or_line_count_witness:
  "map_of (fileEntities (fst (trackFileEdit (rt_at 10000) (ad_static present0) (JStr ''/w/a.txt'')
       ''write'' 7 tracker_pending ((), [])))) ''/w/a.txt'' = Some 10
   \<and> map_of (fileEntities (fst (trackFileEdit (rt_at 10000) (ad_static present0) (JStr ''/w/a.txt'')
       ''edit'' 0 tracker_pending ((), [])))) ''/w/a.txt'' = Some 4
   \<and> map_of (fileEntities (fst (trackFileEdit (rt_at 10000) (ad_static present0) (JStr ''/w/a.txt'')
       ''edit'' 0 tracker_pending ((), [])))) ''/w/b.txt'' = Some 1"
proof -
  have v: "fst (exists (ad_static present0) (JStr ''/w/a.txt'') (fst ((), [])))"
    by (simp add: ad_static_def present0_def)
  have q: "\<forall>w::unit. of_int (fst (Date_now (rt_at 10000) w)) / 1000 - lastHeartbeatAt tracker_pending < 60"
    by (simp add: rt_at_def tracker_pending_def)
  have f: "''/w/a.txt'' = (if path_isAbsolute (rt_at 10000 :: unit Runtime) ''/w/a.txt'' then ''/w/a.txt''
             else path_join (rt_at 10000 :: unit Runtime) (workingDirectory tracker_pending) ''/w/a.txt'')"
    by (simp add: rt_at_def)
  have m: "map_of (fileEntities tracker_pending) ''/w/a.txt'' = Some 3"
    "map_of (fileEntities tracker_pending) ''/w/b.txt'' = Some 1"
    by (simp_all add: tracker_pending_def)
  have r: "fst (readFile (ad_static present0) ''/w/a.txt''
             (snd (exists (ad_static present0) (JStr ''/w/a.txt'') ()))) = Inr ''one''"
    by (simp add: ad_static_def present0_def)
  from trackFileEdit_adds_hint_or_line_count [OF v _ q f, of "''write''" 7]
       trackFileEdit_adds_hint_or_line_count [OF v _ q f, of "''edit''" 0]
       m r
  show ?thesis by simp
qed

text \<open>
  The claim sends every hint that is not positive to the fallback. With the hint \<open>-2\<close> on
  a count of 3 and a file of one line, the claim gives 4; the code stores 1 and does not
  read the file.
\<close>

theorem trackFileEdit_negative_hint_counterexample:
  "map_of (fileEntities tracker_pending) ''/w/a.txt'' = Some 3
   \<and> fst (calculateLineChanges (ad_static present0) ''/w/a.txt'' ((), [])) = 1
   \<and> map_of (fileEntities (fst (trackFileEdit (rt_at 10000) (ad_static present0) (JStr ''/w/a.txt'')
       ''write'' (- 2) tracker_pending ((), [])))) ''/w/a.txt'' = Some 1
   \<and> snd (snd (trackFileEdit (rt_at 10000) (ad_static present0) (JStr ''/w/a.txt'')
       ''write'' (- 2) tracker_pending ((), []))) = [Exists (JStr ''/w/a.txt'')]"
  by code_simp

section \<open>The CLI locator\<close>

text \<open>
  C4, as the code has it. A lookup in which no candidate exists returns the empty string
  and stores it, but the guard \<open>if (this.cliLocation)\<close> reads the stored empty string as
  unset: a call after a miss is the same lookup as a first call, with the same existence
  checks, and it returns a binary that has appeared at a candidate path in the meantime.
\<close>

theorem getCliLocation_stored_miss_is_looked_up_again:
  "getCliLocation rt ad (d\<lparr>cliLocation := Some []\<rparr>) s
     = getCliLocation rt ad (d\<lparr>cliLocation := None\<rparr>) s
   \<and> ((\<forall>w. \<not> fst (exists ad (JStr (path_join rt (resourcesLocation d) ''wakatime-cli'')) w)
            \<and> \<not> fst (exists ad (JStr ''/opt/homebrew/bin/wakatime-cli'') w)
            \<and> \<not> fst (exists ad (JStr ''/usr/local/bin/wakatime-cli'') w))
        \<longrightarrow> fst (getCliLocation rt ad (d\<lparr>cliLocation := None\<rparr>) s) = []
          \<and> cliLocation (fst (snd (getCliLocation rt ad (d\<lparr>cliLocation := None\<rparr>) s))) = Some [])
   \<and> (fst (exists ad (JStr (path_join rt (resourcesLocation d) ''wakatime-cli'')) (fst s))
        \<longrightarrow> getCliLocation rt ad (d\<lparr>cliLocation := Some []\<rparr>) s
            = (path_join rt (resourcesLocation d) ''wakatime-cli'',
               d\<lparr>cliLocation := Some (path_join rt (resourcesLocation d) ''wakatime-cli'')\<rparr>,
               (snd (exists ad (JStr (path_join rt (resourcesLocation d) ''wakatime-cli'')) (fst s)),
                snd s @ [Exists (JStr (path_join rt (resourcesLocation d) ''wakatime-cli'')),
                         Log DEBUG (FoundLocal (path_join rt (resourcesLocation d) ''wakatime-cli''))])))"
proof -
  have same: "getCliLocation rt ad (d\<lparr>cliLocation := Some []\<rparr>) s
                = getCliLocation rt ad (d\<lparr>cliLocation := None\<rparr>) s"
    by (simp add: getCliLocation_def Let_def split: prod.splits)
  have miss: "fst (getCliLocation rt ad (d\<lparr>cliLocation := None\<rparr>) s) = []
          \<and> cliLocation (fst (snd (getCliLocation rt ad (d\<lparr>cliLocation := None\<rparr>) s))) = Some []"
    if "\<forall>w. \<not> fst (exists ad (JStr (path_join rt (resourcesLocation d) ''wakatime-cli'')) w)
            \<and> \<not> fst (exists ad (JStr ''/opt/homebrew/bin/wakatime-cli'') w)
            \<and> \<not> fst (exists ad (JStr ''/usr/local/bin/wakatime-cli'') w)"
  proof -
    have no: "exists ad (JStr p) w = (b, w') \<Longrightarrow>
              p \<in> {path_join rt (resourcesLocation d) ''wakatime-cli'',
                    ''/opt/homebrew/bin/wakatime-cli'', ''/usr/local/bin/wakatime-cli''} \<Longrightarrow> \<not> b"
      for p w b w'
      using that by (metis fst_conv insertE singletonD)
    show ?thesis
      by (auto simp: getCliLocation_def Let_def adapter_exists_def split: prod.splits dest: no)
  qed
  have hit: "getCliLocation rt ad (d\<lparr>cliLocation := Some []\<rparr>) s
            = (path_join rt (resourcesLocation d) ''wakatime-cli'',
               d\<lparr>cliLocation := Some (path_join rt (resourcesLocation d) ''wakatime-cli'')\<rparr>,
               (snd (exists ad (JStr (path_join rt (resourcesLocation d) ''wakatime-cli'')) (fst s)),
                snd s @ [Exists (JStr (path_join rt (resourcesLocation d) ''wakatime-cli'')),
                         Log DEBUG (FoundLocal (path_join rt (resourcesLocation d) ''wakatime-cli''))]))"
    if "fst (exists ad (JStr (path_join rt (resourcesLocation d) ''wakatime-cli'')) (fst s))"
    using that
    by (cases "exists ad (JStr (path_join rt (resourcesLocation d) ''wakatime-cli'')) (fst s)")
       (simp add: getCliLocation_def Let_def adapter_exists_def logger_def)
  from same miss hit show ?thesis by blast
qed

text \<open>Nothing installed: a miss. The CLI installed, after a miss: found.\<close>

theorem getCliLocation_stored_miss_is_looked_up_again_witness:
  "fst (getCliLocation (rt_at 0) (ad_static []) (deps_fresh\<lparr>cliLocation := None\<rparr>) ((), [])) = []
   \<and> cliLocation (fst (snd (getCliLocation (rt_at 0) (ad_static [])
        (deps_fresh\<lparr>cliLocation := None\<rparr>) ((), [])))) = Some []
   \<and> fst (getCliLocation (rt_at 0) ad_fs (deps_fresh\<lparr>cliLocation := Some []\<rparr>)
          ([''/home/u/.wakatime/wakatime-cli''], [])) = ''/home/u/.wakatime/wakatime-cli''"
proof -
  have m: "\<forall>w::unit. \<not> fst (exists (ad_static []) (JStr (path_join (rt_at 0 :: unit Runtime)
                 (resourcesLocation deps_fresh) ''wakatime-cli'')) w)
            \<and> \<not> fst (exists (ad_static []) (JStr ''/opt/homebrew/bin/wakatime-cli'') w)
            \<and> \<not> fst (exists (ad_static []) (JStr ''/usr/local/bin/wakatime-cli'') w)"
    by (simp add: ad_static_def)
  have p: "path_join (rt_at 0 :: string list Runtime) (resourcesLocation deps_fresh) ''wakatime-cli''
             = ''/home/u/.wakatime/wakatime-cli''"
    by (simp add: rt_at_def deps_fresh_def)
  have h: "fst (exists ad_fs (JStr (path_join (rt_at 0 :: string list Runtime)
                 (resourcesLocation deps_fresh) ''wakatime-cli''))
              (fst ([''/home/u/.wakatime/wakatime-cli''], [])))"
    by (simp add: p) (simp add: ad_fs_def)
  have a: "fst (getCliLocation (rt_at 0) (ad_static []) (deps_fresh\<lparr>cliLocation := None\<rparr>) ((), [])) = []
      \<and> cliLocation (fst (snd (getCliLocation (rt_at 0) (ad_static [])
            (deps_fresh\<lparr>cliLocation := None\<rparr>) ((), [])))) = Some []"
    using getCliLocation_stored_miss_is_looked_up_again
            [of "rt_at 0" "ad_static []" deps_fresh "((), [])"] m
    by blast
  have b: "fst (getCliLocation (rt_at 0) ad_fs (deps_fresh\<lparr>cliLocation := Some []\<rparr>)
          ([''/home/u/.wakatime/wakatime-cli''], []))
        = path_join (rt_at 0 :: string list Runtime) (resourcesLocation deps_fresh) ''wakatime-cli''"
    using getCliLocation_stored_miss_is_looked_up_again
            [of "rt_at 0" ad_fs deps_fresh "([''/home/u/.wakatime/wakatime-cli''], [])"] h
    by (metis fst_conv)
  from a b p show ?thesis by simp
qed

text \<open>
  The claim as stated fails: the first call misses on an empty disk; the second call, on
  a disk where the CLI has been installed, checks the filesystem again and returns the
  path.
\<close>

theorem getCliLocation_finds_cli_after_miss_counterexample:
  "getCliLocation (rt_at 0) ad_fs deps_fresh ([], [])
     = ([], deps_fresh\<lparr>cliLocation := Some []\<rparr>,
        ([], [Exists (JStr ''/home/u/.wakatime/wakatime-cli''),
              Exists (JStr ''/opt/homebrew/bin/wakatime-cli''),
              Exists (JStr ''/usr/local/bin/wakatime-cli'')]))
   \<and> getCliLocation (rt_at 0) ad_fs (deps_fresh\<lparr>cliLocation := Some []\<rparr>)
        ([''/home/u/.wakatime/wakatime-cli''], [])
     = (''/home/u/.wakatime/wakatime-cli'',
        deps_fresh\<lparr>cliLocation := Some ''/home/u/.wakatime/wakatime-cli''\<rparr>,
        ([''/home/u/.wakatime/wakatime-cli''],
         [Exists (JStr ''/home/u/.wakatime/wakatime-cli''),
          Log DEBUG (FoundLocal ''/home/u/.wakatime/wakatime-cli'')]))"
  by (simp add: getCliLocation_def Let_def adapter_exists_def logger_def deps_fresh_def
        ad_fs_def rt_at_def)

section \<open>Tool calls without a usable path\<close>

text \<open>
  C6 at its failing input. \<open>trackToolUsage\<close> of \<open>src/tracker\<close> evaluates \<open>args.filePath\<close>
  without looking at \<open>args\<close>: for a \<open>read\<close>, \<open>write\<close> or \<open>edit\<close> tool call whose arguments
  object is missing, the call raises a TypeError instead of returning.
\<close>

theorem trackToolUsage_missing_args_raises:
  "trackToolUsage rt ad ''read'' Undefined output t s = (Inl TypeError, t, s)
   \<and> trackToolUsage rt ad ''write'' Undefined output t s = (Inl TypeError, t, s)
   \<and> trackToolUsage rt ad ''edit'' Null output t s = (Inl TypeError, t, s)"
  by (simp add: trackToolUsage_def)

text \<open>
  The rest of the claim holds in \<open>src/tracker\<close>: an arguments object without a string
  under \<open>filePath\<close> raises nothing and leaves the tracker as it was. The bundled plugin's
  \<open>trackToolUsage\<close> checks \<open>args\<close> first and returns silently in every case of the claim.
\<close>

lemma trackFileEdit_non_string:
  "\<not> isString v \<Longrightarrow> fst (trackFileEdit rt ad v operation lineChanges t s) = t"
  by (cases v)
     (simp_all add: trackFileEdit_def isValidFilePath_def adapter_exists_def split: prod.splits)

lemma trackToolUsage_non_string_path:
  assumes "getProp args ''filePath'' = Inr v" "\<not> isString v"
  shows "fst (trackToolUsage rt ad toolName args output t s) = Inr ()
         \<and> fst (snd (trackToolUsage rt ad toolName args output t s)) = t"
  using assms trackFileEdit_non_string [OF assms(2), of rt ad _ 0 t s]
  by (auto simp: trackToolUsage_def split: prod.splits)

theorem trackToolUsage_non_string_path_witness:
  "fst (trackToolUsage (rt_at 100000) (ad_static present0) ''read'' (JObj []) Undefined
          tracker_pending ((), [])) = Inr ()
   \<and> fst (snd (trackToolUsage (rt_at 100000) (ad_static present0) ''write''
          (JObj [(''filePath'', JNum 5)]) Undefined tracker_pending ((), []))) = tracker_pending"
proof -
  have a: "getProp (JObj []) ''filePath'' = Inr Undefined" "\<not> isString Undefined" by simp_all
  have b: "getProp (JObj [(''filePath'', JNum 5)]) ''filePath'' = Inr (JNum 5)" "\<not> isString (JNum 5)"
    by simp_all
  from trackToolUsage_non_string_path [OF a, of "rt_at 100000" "ad_static present0" "''read''" Undefined
         tracker_pending "((), [])"]
       trackToolUsage_non_string_path [OF b, of "rt_at 100000" "ad_static present0" "''write''" Undefined
         tracker_pending "((), [])"]
  show ?thesis by simp
qed

lemma trackToolUsage_bundled_ignores:
  assumes "\<And>fp. getProp args ''filePath'' = Inr (JStr fp) \<Longrightarrow> fp = []"
    and "\<And>fp. getProp args ''file_path'' = Inr (JStr fp) \<Longrightarrow> fp = []"
    and "\<And>fp. getProp args ''path'' = Inr (JStr fp) \<Longrightarrow> fp = []"
  shows "trackToolUsage_bundled rt ad toolName args output t s = (Inr (), t, s)"
proof (cases "truthy args")
  case False
  then show ?thesis by (simp add: trackToolUsage_bundled_def)
next
  case True
  then obtain v1 v2 v3 where g: "getProp args ''filePath'' = Inr v1"
    "getProp args ''file_path'' = Inr v2" "getProp args ''path'' = Inr v3"
    by (cases args) auto
  have s1: "v1 = JStr fp \<Longrightarrow> fp = []" for fp using assms(1) g by simp
  have s2: "v2 = JStr fp \<Longrightarrow> fp = []" for fp using assms(2) g by simp
  have s3: "v3 = JStr fp \<Longrightarrow> fp = []" for fp using assms(3) g by simp
  show ?thesis
    using True s1 s2 s3
    by (cases v1; cases v2; cases v3) (simp_all add: trackToolUsage_bundled_def g)
qed

theorem trackToolUsage_bundled_ignores_witness:
  "trackToolUsage_bundled (rt_at 100000) (ad_static present0) ''read'' Undefined Undefined
     tracker_pending ((), []) = (Inr (), tracker_pending, ((), []))
   \<and> trackToolUsage_bundled (rt_at 100000) (ad_static present0) ''write''
       (JObj [(''filePath'', JNum 5), (''content'', JStr ''x'')]) Undefined
       tracker_pending ((), []) = (Inr (), tracker_pending, ((), []))
   \<and> trackToolUsage_bundled (rt_at 100000) (ad_static present0) ''edit''
       (JObj [(''pattern'', JStr ''x'')]) Undefined
       tracker_pending ((), []) = (Inr (), tracker_pending, ((), []))"
proof -
  have a: "trackToolUsage_bundled (rt_at 100000) (ad_static present0) ''read'' Undefined Undefined
     tracker_pending ((), []) = (Inr (), tracker_pending, ((), []))"
    by (rule trackToolUsage_bundled_ignores) simp_all
  have b: "trackToolUsage_bundled (rt_at 100000) (ad_static present0) ''write''
       (JObj [(''filePath'', JNum 5), (''content'', JStr ''x'')]) Undefined
       tracker_pending ((), []) = (Inr (), tracker_pending, ((), []))"
    by (rule trackToolUsage_bundled_ignores) simp_all
  have c: "trackToolUsage_bundled (rt_at 100000) (ad_static present0) ''edit''
       (JObj [(''pattern'', JStr ''x'')]) Undefined
       tracker_pending ((), []) = (Inr (), tracker_pending, ((), []))"
    by (rule trackToolUsage_bundled_ignores) simp_all
  from a b c show ?thesis by simp
qed

section \<open>The reachable states\<close>

text \<open>
  The fields of the tracker are private, so its states are those the constructor,
  \<open>initialize\<close> and the tracking methods produce. All of them are \<open>wired\<close>.
\<close>

lemma wired_new: "wired (new_WakaTimeTracker wd)"
  by (simp add: wired_def new_WakaTimeTracker_def)

lemma wired_initialize: "wired (fst (initialize rt ad t s))"
  by (simp add: initialize_def wired_def Let_def split: prod.splits)

lemma wired_sendHeartbeat:
  assumes "wired t"
  shows "wired (fst (snd (sendHeartbeat rt ad t s)))"
proof -
  obtain r t1 s1 where loop: "sendHeartbeats_loop rt ad (fileEntities t) t s = (r, t1, s1)"
    by (cases "sendHeartbeats_loop rt ad (fileEntities t) t s") auto
  from sendHeartbeats_loop_sending [OF assms loop] have "wired t1" by simp
  then show ?thesis
    by (simp add: sendHeartbeat_result [OF assms loop] wired_def)
qed

lemma wired_trackFileEdit:
  assumes "wired t"
  shows "wired (fst (trackFileEdit rt ad v operation lineChanges t s))"
proof (cases "isString v")
  case False
  with assms show ?thesis by (simp add: trackFileEdit_non_string)
next
  case True
  then obtain fp where v: "v = JStr fp" by (cases v) auto
  obtain b w1 where ex: "exists ad (JStr fp) (fst s) = (b, w1)"
    by (cases "exists ad (JStr fp) (fst s)")
  show ?thesis
  proof (cases b)
    case False
    with ex assms show ?thesis
      by (simp add: v trackFileEdit_def isValidFilePath_def adapter_exists_def)
  next
    case True
    obtain t2 s2 where acc:
      "accumulate ad (if path_isAbsolute rt fp then fp else path_join rt (workingDirectory t) fp)
         operation lineChanges t (w1, snd s @ [Exists (JStr fp)]) = (t2, s2)"
      by (cases "accumulate ad (if path_isAbsolute rt fp then fp else path_join rt (workingDirectory t) fp)
         operation lineChanges t (w1, snd s @ [Exists (JStr fp)])") auto
    have w2: "wired t2" using accumulate_props(1) [OF acc] assms by simp
    obtain due s3 where sh: "shouldSendHeartbeat rt t2 s2 = (due, s3)"
      by (cases "shouldSendHeartbeat rt t2 s2")
    obtain r t4 s4 where loop: "sendHeartbeats_loop rt ad (fileEntities t2) t2 s3 = (r, t4, s4)"
      by (cases "sendHeartbeats_loop rt ad (fileEntities t2) t2 s3") auto
    note lp = sendHeartbeats_loop_sending [OF w2 loop]
    from ex True have ex': "exists ad (JStr fp) (fst s) = (True, w1)" by simp
    show ?thesis
      using lp w2
      by (auto simp: v trackFileEdit_unfold [OF ex'] acc sh sendHeartbeats_def loop
            clearEntities_def wired_def split: prod.splits)
  qed
qed

lemma wired_trackToolUsage:
  assumes "wired t"
  shows "wired (fst (snd (trackToolUsage rt ad toolName args output t s)))"
  using assms wired_trackFileEdit [OF assms, of rt ad _ _ 0 s]
  by (auto simp: trackToolUsage_def split: sum.splits prod.splits)

text \<open>
  The constructor and \<open>initialize\<close> establish \<open>wired\<close>; \<open>trackFileEdit\<close>, \<open>trackToolUsage\<close> and
  \<open>sendHeartbeat\<close> keep it.
\<close>

theorem wired_is_invariant:
  "wired (new_WakaTimeTracker wd)
   \<and> wired (fst (initialize rt ad t0 s))
   \<and> (wired t \<longrightarrow> wired (fst (trackFileEdit rt ad v operation lineChanges t s))
                 \<and> wired (fst (snd (trackToolUsage rt ad toolName args output t s)))
                 \<and> wired (fst (snd (sendHeartbeat rt ad t s))))"
  using wired_new [of wd] wired_initialize [of rt ad t0 s]
    wired_trackFileEdit [of t rt ad v operation lineChanges s]
    wired_trackToolUsage [of t rt ad toolName args "output" s]
    wired_sendHeartbeat [of t rt ad s]
  by simp

theorem wired_is_invariant_witness:
  "wired tracker_pending
   \<and> wired (fst (trackFileEdit (rt_at 100000) (ad_static present0) (JStr ''/w/a.txt'') ''edit'' 0
              tracker_pending ((), [])))
   \<and> wired (fst (snd (sendHeartbeat (rt_at 100000) (ad_static present0) tracker_pending ((), []))))"
proof -
  have w: "wired tracker_pending" by (simp add: wired_def tracker_pending_def)
  with wired_is_invariant [of "''/w''" "rt_at 100000" "ad_static present0" tracker_pending "((), [])"
         tracker_pending "JStr ''/w/a.txt''" "''edit''" 0 "''edit''" Undefined Undefined]
  show ?thesis by blast
qed

section \<open>The bundled plugin\<close>

text \<open>
  Where the copy in \<open>.opencode/plugin/wakatime.ts\<close> goes with \<open>src\<close> and where it does not.
\<close>

text \<open>
  Its \<open>trackFileEdit\<close> checks the resolved path, and a path that does not exist changes
  nothing.
\<close>

theorem trackFileEdit_bundled_missing_path_is_noop:
  assumes "fullPath = (if path_isAbsolute rt filePath then filePath
                       else path_join rt (workingDirectory t) filePath)"
    and "\<not> fst (exists ad (JStr fullPath) (fst s))"
  shows "trackFileEdit_bundled rt ad filePath operation lineChanges t s
           = (Inr (), t, (snd (exists ad (JStr fullPath) (fst s)), snd s @ [Exists (JStr fullPath)]))"
proof -
  obtain b w where e: "exists ad (JStr fullPath) (fst s) = (b, w)"
    by (cases "exists ad (JStr fullPath) (fst s)")
  with assms(2) have "\<not> b" by simp
  with e show ?thesis
    by (simp add: trackFileEdit_bundled_def adapter_exists_def Let_def assms(1) [symmetric])
qed

theorem trackFileEdit_bundled_missing_path_is_noop_witness:
  "trackFileEdit_bundled (rt_at 100000) (ad_static present0) ''gone.txt'' ''write'' 5
        tracker_pending ((), [])
      = (Inr (), tracker_pending, ((), [Exists (JStr ''/w/gone.txt'')]))"
proof -
  have f: "''/w/gone.txt'' = (if path_isAbsolute (rt_at 100000 :: unit Runtime) ''gone.txt'' then ''gone.txt''
             else path_join (rt_at 100000 :: unit Runtime) (workingDirectory tracker_pending) ''gone.txt'')"
    by (simp add: rt_at_def tracker_pending_def)
  have h: "\<not> fst (exists (ad_static present0) (JStr ''/w/gone.txt'') (fst ((), [])))"
    by (simp add: ad_static_def present0_def)
  from trackFileEdit_bundled_missing_path_is_noop [OF f h, of "''write''" 5]
  show ?thesis by (simp add: ad_static_def)
qed

text \<open>Its \<open>getSetting\<close> trims the value and keeps the null characters in it.\<close>

theorem getSetting_bundled_keeps_nulls:
  "getSetting_bundled (options_with content_nulls) ''settings'' ''api_key''
     = Some (''a'' @ [CHR 0x00] @ ''b'')
   \<and> getSetting (options_with content_nulls) ''settings'' ''api_key'' None = Some ''ab''"
  by code_simp

text \<open>Without a hint it counts one change and reads no file.\<close>

theorem trackFileEdit_bundled_fallback_is_one:
  "fileEntities tracker_pending = [(''/w/a.txt'', 3), (''/w/b.txt'', 1)]
   \<and> fileEntities (fst (snd (trackFileEdit_bundled (rt_at 10000) (ad_static present0) ''/w/a.txt''
        ''edit'' 0 tracker_pending ((), [])))) = [(''/w/a.txt'', 4), (''/w/b.txt'', 1)]
   \<and> snd (snd (snd (trackFileEdit_bundled (rt_at 10000) (ad_static present0) ''/w/a.txt''
        ''edit'' 0 tracker_pending ((), [])))) = [Exists (JStr ''/w/a.txt'')]"
  by code_simp

text \<open>Its locator returns the empty string on a miss and stores nothing.\<close>

theorem getCliLocation_bundled_miss_is_not_stored:
  "getCliLocation_bundled (rt_at 0) ad_fs deps_fresh ([], [])
     = ([], deps_fresh,
        ([], [Exists (JStr ''/home/u/.wakatime/wakatime-cli''),
              Exists (JStr ''/opt/homebrew/bin/wakatime-cli''),
              Exists (JStr ''/usr/local/bin/wakatime-cli'')]))
   \<and> getCliLocation_bundled (rt_at 0) ad_fs deps_fresh ([''/opt/homebrew/bin/wakatime-cli''], [])
     = (''/opt/homebrew/bin/wakatime-cli'',
        deps_fresh\<lparr>cliLocation := Some ''/opt/homebrew/bin/wakatime-cli''\<rparr>,
        ([''/opt/homebrew/bin/wakatime-cli''],
         [Exists (JStr ''/home/u/.wakatime/wakatime-cli''),
          Exists (JStr ''/opt/homebrew/bin/wakatime-cli''),
          Log DEBUG (FoundAt ''/opt/homebrew/bin/wakatime-cli'')]))"
  by (simp add: getCliLocation_bundled_def Let_def adapter_exists_def logger_def deps_fresh_def
        ad_fs_def rt_at_def)

text \<open>Its flush empties the pending map as well, with at most one invocation per path.\<close>

lemma getCliLocation_loop_trace:
  "getCliLocation_loop ad ps d s = (c, d1, s1) \<Longrightarrow>
     length (filter isExec (snd s1)) = length (filter isExec (snd s))"
  by (induction ps arbitrary: s)
     (auto simp: adapter_exists_def logger_def split: prod.splits if_splits)

lemma sendSingleHeartbeat_bundled_ok:
  "wired t \<Longrightarrow> sendSingleHeartbeat_bundled rt ad entity n t s = (r, t1, s1) \<Longrightarrow>
     r = Inr () \<and> wired t1
     \<and> length (filter isExec (snd s1)) \<le> Suc (length (filter isExec (snd s)))"
  apply (simp add: sendSingleHeartbeat_bundled_def getCliLocation_bundled_def Let_def wired_def
           split: if_splits option.splits prod.splits)
    apply (auto simp: prims Let_def dest!: getCliLocation_loop_trace split: sum.splits if_splits prod.splits)
  done

lemma sendHeartbeats_loop_bundled_ok:
  "wired t \<Longrightarrow> sendHeartbeats_loop_bundled rt ad es t s = (r, t1, s1) \<Longrightarrow>
     r = Inr () \<and> wired t1
     \<and> length (filter isExec (snd s1)) \<le> length (filter isExec (snd s)) + length es"
proof (induction es arbitrary: t s)
  case Nil
  then show ?case by simp
next
  case (Cons pn es)
  obtain p n where pn: "pn = (p, n)" by (cases pn)
  obtain r0 t0 s0 where step: "sendSingleHeartbeat_bundled rt ad p n t s = (r0, t0, s0)"
    by (cases "sendSingleHeartbeat_bundled rt ad p n t s") auto
  note one = sendSingleHeartbeat_bundled_ok [OF Cons.prems(1) step]
  from Cons.prems(2) have rest: "sendHeartbeats_loop_bundled rt ad es t0 s0 = (r, t1, s1)"
    using one by (simp add: pn step)
  from Cons.IH [OF _ rest] one show ?case by (simp add: pn)
qed

theorem sendHeartbeat_bundled_clears:
  assumes "wired t"
  shows "fst (sendHeartbeat_bundled rt ad t s) = Inr ()
    \<and> fileEntities (fst (snd (sendHeartbeat_bundled rt ad t s))) = []
    \<and> length (filter isExec (snd (snd (snd (sendHeartbeat_bundled rt ad t s)))))
        \<le> length (filter isExec (snd s)) + length (fileEntities t)"
proof -
  obtain r t1 s1 where loop: "sendHeartbeats_loop_bundled rt ad (fileEntities t) t s = (r, t1, s1)"
    by (cases "sendHeartbeats_loop_bundled rt ad (fileEntities t) t s") auto
  from sendHeartbeats_loop_bundled_ok [OF assms loop] show ?thesis
    by (simp add: sendHeartbeat_bundled_def sendHeartbeats_bundled_def loop now_eq)
qed

theorem sendHeartbeat_bundled_clears_witness:
  "wired tracker_pending
   \<and> fileEntities (fst (snd (sendHeartbeat_bundled (rt_at 100000) (ad_static present0)
        tracker_pending ((), [])))) = []"
proof -
  have w: "wired tracker_pending" by (simp add: wired_def tracker_pending_def)
  with sendHeartbeat_bundled_clears [OF w, of "rt_at 100000" "ad_static present0" "((), [])"]
  show ?thesis by simp
qed

end
